theory Spec2Isabelle
  imports Complex_Main "HOL-Library.AList"
begin

section \<open>Identifiers: \<open>MediaOwnershipExtractor.sanitize_id\<close>\<close>

text \<open>
  A Python \<open>str\<close> is modelled as a \<open>string\<close>, a list of characters with the code points 0 to
  255. \<open>sanitize_id\<close> replaces every character outside \<open>[a-zA-Z0-9]\<close> by an underscore before
  anything else looks at it, so a code point beyond ASCII behaves like any other character that
  is not an ASCII letter or digit.
  The function is only ever called with a \<open>str\<close>; Python's \<open>not name\<close> is then the test for
  the empty string.
\<close>

definition is_alnum :: "char \<Rightarrow> bool" where
  \<comment> \<open>the character class \<open>[a-zA-Z0-9]\<close>\<close>
  "is_alnum c =
     (let n = (of_char c :: nat)
      in (97 \<le> n \<and> n \<le> 122) \<or> (65 \<le> n \<and> n \<le> 90) \<or> (48 \<le> n \<and> n \<le> 57))"

definition replace_special :: "string \<Rightarrow> string" where
  \<comment> \<open>\<open>re.sub(r'[^a-zA-Z0-9]', '_', name)\<close>\<close>
  "replace_special s = map (\<lambda>c. if is_alnum c then c else CHR ''_'') s"

definition lower_char :: "char \<Rightarrow> char" where
  \<comment> \<open>the upper-case letters among the code points below 256 are \<open>A\<close> to \<open>Z\<close> (65 to 90)
      and the accented letters 192 to 214 and 216 to 222; each has its lower-case letter 32
      code points further\<close>
  "lower_char c =
     (let n = (of_char c :: nat)
      in if (65 \<le> n \<and> n \<le> 90) \<or> (192 \<le> n \<and> n \<le> 214) \<or> (216 \<le> n \<and> n \<le> 222)
         then char_of (n + 32) else c)"

definition lower :: "string \<Rightarrow> string" where
  \<comment> \<open>\<open>str.lower()\<close>\<close>
  "lower s = map lower_char s"

fun collapse_underscores :: "string \<Rightarrow> string" where
  \<comment> \<open>\<open>re.sub(r'_+', '_', sanitized)\<close>: every run of underscores becomes one\<close>
  "collapse_underscores (c # d # s) =
     (if c = CHR ''_'' \<and> d = CHR ''_'' then collapse_underscores (d # s)
      else c # collapse_underscores (d # s))"
| "collapse_underscores s = s"

definition strip_underscores :: "string \<Rightarrow> string" where
  \<comment> \<open>\<open>sanitized.strip('_')\<close>\<close>
  "strip_underscores s =
     rev (dropWhile (\<lambda>c. c = CHR ''_'') (rev (dropWhile (\<lambda>c. c = CHR ''_'') s)))"

definition sanitize_id :: "string \<Rightarrow> string" where
  "sanitize_id name =
     (if name = [] then ''unknown''
      else strip_underscores (collapse_underscores (lower (replace_special name))))"


section \<open>The directed graph (\<open>networkx.DiGraph\<close>)\<close>

text \<open>
  \<open>networkx\<close> is a library the repository imports; the model follows its documented behaviour.
  A \<open>DiGraph\<close> keeps a dictionary from each node to the dictionary of its successors, and one
  attribute dictionary per ordered pair of nodes. Python dictionaries keep insertion order, so
  they are association lists here: \<open>map_of\<close> reads a key, \<open>AList.update\<close> writes one (in place
  when the key is present, at the end otherwise). Node attributes are written by the extractor
  but never read by the functions modelled here, so a node is kept as a key only.
\<close>

type_synonym node = string

type_synonym 'a digraph = "(node \<times> (node \<times> 'a) list) list"

definition nodes :: "'a digraph \<Rightarrow> node list" where
  "nodes g = map fst g"

definition add_node :: "node \<Rightarrow> 'a digraph \<Rightarrow> 'a digraph" where
  "add_node n g = (if n \<in> set (nodes g) then g else g @ [(n, [])])"

definition neighbours :: "'a digraph \<Rightarrow> node \<Rightarrow> (node \<times> 'a) list" where
  "neighbours g u = (case map_of g u of None \<Rightarrow> [] | Some nb \<Rightarrow> nb)"

definition successors :: "'a digraph \<Rightarrow> node \<Rightarrow> node list" where
  "successors g u = map fst (neighbours g u)"

definition edge_data_of :: "'a digraph \<Rightarrow> node \<Rightarrow> node \<Rightarrow> 'a option" where
  "edge_data_of g u v = map_of (neighbours g u) v"

definition add_edge :: "node \<Rightarrow> node \<Rightarrow> ('a option \<Rightarrow> 'a) \<Rightarrow> 'a digraph \<Rightarrow> 'a digraph" where
  \<comment> \<open>\<open>G.add_edge(u, v, **attr)\<close>: both nodes are added when missing, then the pair's
      attribute dictionary (the present one, or a new one) is updated and stored;
      \<open>upd\<close> maps the present dictionary, if any, to the updated one\<close>
  "add_edge u v upd g =
     (let g' = add_node v (add_node u g);
          nb = neighbours g' u
      in AList.update u (AList.update v (upd (map_of nb v)) nb) g')"

definition has_edge :: "'a digraph \<Rightarrow> node \<Rightarrow> node \<Rightarrow> bool" where
  "has_edge g u v = (v \<in> set (successors g u))"

definition edges :: "'a digraph \<Rightarrow> (node \<times> node \<times> 'a) list" where
  \<comment> \<open>\<open>G.edges(data=True)\<close>\<close>
  "edges g = concat (map (\<lambda>(u, nb). map (\<lambda>(v, d). (u, v, d)) nb) g)"

datatype error = NodeNotFound | KeyError

fun simple_paths :: "'a digraph \<Rightarrow> node \<Rightarrow> nat \<Rightarrow> node list \<Rightarrow> node list \<Rightarrow> node list list" where
  \<comment> \<open>the depth-first search of \<open>all_simple_paths\<close>: \<open>visited\<close> is the path walked so far, the
      last argument holds the successors of its last node that are still to be tried, and
      \<open>k\<close> is the number of edges that may follow such a successor; a path is reported when it
      reaches \<open>t\<close>, and is not extended beyond \<open>t\<close>\<close>
  "simple_paths g t k visited [] = []"
| "simple_paths g t k visited (v # vs) =
     (if v \<in> set visited then []
      else if v = t then [visited @ [v]]
      else case k of 0 \<Rightarrow> [] | Suc k' \<Rightarrow> simple_paths g t k' (visited @ [v]) (successors g v))
     @ simple_paths g t k visited vs"

definition all_simple_paths :: "bool \<Rightarrow> 'a digraph \<Rightarrow> node \<Rightarrow> node \<Rightarrow> nat \<Rightarrow> node list list" where
  \<comment> \<open>\<open>nx.all_simple_paths(G, source, target, cutoff)\<close> for a source and a target that are
      nodes of \<open>G\<close> (the extractor calls it only after \<open>has_path\<close> has returned): the simple
      paths of at most \<open>cutoff\<close> edges. When source and target are the same node, current
      releases of the library report the one-node path and earlier releases report nothing:
      \<open>trivial\<close> says which release is in use.\<close>
  "all_simple_paths trivial g s t cutoff =
     (if s = t then (if trivial then [[s]] else [])
      else case cutoff of 0 \<Rightarrow> [] | Suc k \<Rightarrow> simple_paths g t k [s] (successors g s))"

definition has_path :: "'a digraph \<Rightarrow> node \<Rightarrow> node \<Rightarrow> error + bool" where
  \<comment> \<open>\<open>nx.has_path(G, source, target)\<close>: raises \<open>NodeNotFound\<close> when either node is not in
      \<open>G\<close>; otherwise tells whether the target can be reached, that is, whether source and
      target are equal or some simple path leads from one to the other (a simple path has
      fewer edges than the graph has nodes)\<close>
  "has_path g s t =
     (if s \<notin> set (nodes g) \<or> t \<notin> set (nodes g) then Inl NodeNotFound
      else Inr (s = t \<or> simple_paths g t (length g) [s] (successors g s) \<noteq> []))"

section \<open>The extractor's state\<close>

text \<open>
  A percentage is a Python float, or the integer \<open>0\<close> where the extractor writes the literal
  \<open>0\<close>. The floats are the values of a type \<open>'f\<close>, and the float operations the extractor uses
  are the fields of a record \<open>ops\<close> that the functions computing with percentages take as a
  parameter: the model computes what the extractor computes, operation by operation and in the
  same order, whatever the results of the single operations are. Section
  \<open>Python's float arithmetic\<close> defines the operations of Python's floats.
\<close>

datatype 'f number = Int_zero | Float 'f

record 'f float_ops =
  fl_zero :: 'f \<comment> \<open>\<open>float(0)\<close>: the integer \<open>0\<close> as an operand of a float operation\<close>
  fl_hundred :: 'f \<comment> \<open>\<open>100.0\<close>\<close>
  fl_div100 :: "'f \<Rightarrow> 'f" \<comment> \<open>\<open>x / 100.0\<close>\<close>
  fl_mul :: "'f \<Rightarrow> 'f \<Rightarrow> 'f" \<comment> \<open>\<open>x * y\<close>\<close>
  fl_add :: "'f \<Rightarrow> 'f \<Rightarrow> 'f" \<comment> \<open>\<open>x + y\<close>\<close>
  fl_gt1 :: "'f \<Rightarrow> bool" \<comment> \<open>\<open>x > 1.0\<close>\<close>
  fl_format_2f :: "'f \<Rightarrow> string" \<comment> \<open>\<open>f"{x:.2f}"\<close>\<close>

definition to_float :: "'f float_ops \<Rightarrow> 'f number \<Rightarrow> 'f" where
  \<comment> \<open>the operand of a float operation: Python converts the integer to a float\<close>
  "to_float ops n = (case n of Int_zero \<Rightarrow> fl_zero ops | Float x \<Rightarrow> x)"

definition greater_one :: "'f float_ops \<Rightarrow> 'f number \<Rightarrow> bool" where
  \<comment> \<open>\<open>n > 1.0\<close>; the integer \<open>0\<close> is not greater than \<open>1.0\<close>\<close>
  "greater_one ops n = (case n of Int_zero \<Rightarrow> False | Float x \<Rightarrow> fl_gt1 ops x)"

definition format_2f :: "'f float_ops \<Rightarrow> 'f number \<Rightarrow> string" where
  \<comment> \<open>\<open>f"{n:.2f}"\<close>\<close>
  "format_2f ops n = (case n of Int_zero \<Rightarrow> ''0.00'' | Float x \<Rightarrow> fl_format_2f ops x)"

record owner_info =
  ow_id :: string
  ow_name :: string
  ow_description :: string
  ow_image_url :: string
  ow_type :: string

record entity_info =
  en_id :: string
  en_name :: string
  en_type :: string
  en_media_type :: "string option"
  en_image_url :: string

record 'f relationship =
  source_id :: string
  target_id :: string
  rel_type :: string
  percentage :: "'f number"
  description :: string

record 'f edge_attrs =
  ed_type :: "string option"
  ed_percentage :: "'f number option"
  ed_description :: "string option"

record 'f extractor =
  owners :: "(string \<times> owner_info) list"
  entities :: "(string \<times> entity_info) list"
  relationships :: "'f relationship list"
  graph :: "'f edge_attrs digraph"

definition init :: "'f extractor" where
  \<comment> \<open>\<open>__init__\<close>\<close>
  "init = \<lparr>owners = [], entities = [], relationships = [], graph = []\<rparr>"

definition no_attrs :: "'f edge_attrs" where
  "no_attrs = \<lparr>ed_type = None, ed_percentage = None, ed_description = None\<rparr>"

definition dict_update :: "'f edge_attrs \<Rightarrow> 'f edge_attrs \<Rightarrow> 'f edge_attrs" where
  \<comment> \<open>\<open>datadict.update(attr)\<close>: the keys \<open>attr\<close> has are overwritten, the others are kept\<close>
  "dict_update attr d =
     \<lparr>ed_type = (case ed_type attr of None \<Rightarrow> ed_type d | Some t \<Rightarrow> Some t),
      ed_percentage = (case ed_percentage attr of None \<Rightarrow> ed_percentage d | Some p \<Rightarrow> Some p),
      ed_description = (case ed_description attr of None \<Rightarrow> ed_description d | Some x \<Rightarrow> Some x)\<rparr>"

definition graph_add_edge ::
  "node \<Rightarrow> node \<Rightarrow> 'f edge_attrs \<Rightarrow> 'f edge_attrs digraph \<Rightarrow> 'f edge_attrs digraph" where
  \<comment> \<open>\<open>self.graph.add_edge(u, v, type=..., ...)\<close>\<close>
  "graph_add_edge u v attr g =
     add_edge u v (\<lambda>old. dict_update attr (case old of None \<Rightarrow> no_attrs | Some d \<Rightarrow> d)) g"

definition register_owner :: "owner_info \<Rightarrow> 'f extractor \<Rightarrow> 'f extractor" where
  \<comment> \<open>\<open>self.owners[id] = {...}\<close> followed by \<open>self.graph.add_node(id, ...)\<close>\<close>
  "register_owner ow st =
     st\<lparr>owners := AList.update (ow_id ow) ow (owners st),
        graph := add_node (ow_id ow) (graph st)\<rparr>"

definition register_entity :: "entity_info \<Rightarrow> 'f extractor \<Rightarrow> 'f extractor" where
  \<comment> \<open>\<open>self.entities[id] = {...}\<close> followed by \<open>self.graph.add_node(id, ...)\<close>\<close>
  "register_entity en st =
     st\<lparr>entities := AList.update (en_id en) en (entities st),
        graph := add_node (en_id en) (graph st)\<rparr>"

definition append_relationship :: "'f relationship \<Rightarrow> 'f extractor \<Rightarrow> 'f extractor" where
  \<comment> \<open>\<open>self.relationships.append(relationship)\<close>\<close>
  "append_relationship r st = st\<lparr>relationships := relationships st @ [r]\<rparr>"

definition add_relationship_edge :: "bool \<Rightarrow> 'f relationship \<Rightarrow> 'f extractor \<Rightarrow> 'f extractor" where
  \<comment> \<open>\<open>self.graph.add_edge(source, target, type=..., percentage=..., description=...)\<close>;
      the family edges are added without a percentage (\<open>with_percentage\<close> is false)\<close>
  "add_relationship_edge with_percentage r st =
     st\<lparr>graph := graph_add_edge (source_id r) (target_id r)
            \<lparr>ed_type = Some (rel_type r),
             ed_percentage = (if with_percentage then Some (percentage r) else None),
             ed_description = Some (description r)\<rparr>
            (graph st)\<rparr>"

section \<open>Direct relationships\<close>

text \<open>
  Reading the HTML is left to \<open>BeautifulSoup\<close>. A page is modelled by what the extractor finds
  in it: the owner's name, description and image, the \<open>teaser company\<close> blocks handed to
  \<open>process_media_company\<close> and to \<open>process_media_outlet\<close>, and the texts handed to
  \<open>process_family_member\<close>, each already split into a name and a description (lines 355 to 371
  of \<open>build.py\<close>). The percentage of a block is the float that \<open>float\<close> returns for its text; that
  can be any float, also an infinity or a NaN. A float is printed in a description by Python's
  \<open>str\<close>, which the functions take as the parameter \<open>float_str\<close>.
\<close>

record 'f teaser =
  t_link :: bool \<comment> \<open>the block has an \<open>a\<close> element\<close>
  t_name :: "string option" \<comment> \<open>the stripped text of \<open>strong.hl4\<close>\<close>
  t_mediatype :: "string option" \<comment> \<open>the stripped text of \<open>div.mediatype\<close>\<close>
  t_percentage :: "'f option" \<comment> \<open>the float read from \<open>div.percentage\<close>; \<open>None\<close> when the
    block has none or \<open>float\<close> raises \<open>ValueError\<close>\<close>
  t_image :: string

record 'f page =
  pg_owner_name :: string
  pg_owner_description :: string
  pg_owner_image :: string
  pg_companies :: "'f teaser list"
  pg_outlets :: "'f teaser list"
  pg_family :: "(string \<times> string) list"

definition owns_description :: "('f \<Rightarrow> string) \<Rightarrow> 'f option \<Rightarrow> string \<Rightarrow> string" where
  \<comment> \<open>\<open>f"Owns {ownership_percentage}% of {name}"\<close>; the percentage is the integer \<open>0\<close> when
      none was read\<close>
  "owns_description float_str p name =
     ''Owns '' @ (case p of None \<Rightarrow> ''0'' | Some x \<Rightarrow> float_str x) @ ''% of '' @ name"

definition process_media_company ::
  "('f \<Rightarrow> string) \<Rightarrow> 'f teaser \<Rightarrow> string \<Rightarrow> 'f extractor \<Rightarrow> 'f extractor" where
  "process_media_company float_str company_div owner_id st =
     (if \<not> t_link company_div then st
      else
        let company_name = (case t_name company_div of None \<Rightarrow> ''Unknown Company'' | Some n \<Rightarrow> n);
            company_id = sanitize_id company_name;
            ownership_percentage =
              (case t_percentage company_div of None \<Rightarrow> Int_zero | Some p \<Rightarrow> Float p);
            st1 = register_entity
                    \<lparr>en_id = company_id, en_name = company_name, en_type = ''company'',
                     en_media_type = None, en_image_url = t_image company_div\<rparr> st;
            relationship =
              \<lparr>source_id = owner_id, target_id = company_id, rel_type = ''owns'',
               percentage = ownership_percentage,
               description = owns_description float_str (t_percentage company_div) company_name\<rparr>
        in add_relationship_edge True relationship (append_relationship relationship st1))"

definition process_media_outlet ::
  "('f \<Rightarrow> string) \<Rightarrow> 'f teaser \<Rightarrow> string \<Rightarrow> 'f extractor \<Rightarrow> 'f extractor" where
  "process_media_outlet float_str outlet_div owner_id st =
     (if \<not> t_link outlet_div then st
      else
        let outlet_name = (case t_name outlet_div of None \<Rightarrow> ''Unknown Outlet'' | Some n \<Rightarrow> n);
            outlet_id = sanitize_id outlet_name;
            outlet_type = (case t_mediatype outlet_div of None \<Rightarrow> ''unknown'' | Some m \<Rightarrow> m);
            ownership_percentage =
              (case t_percentage outlet_div of None \<Rightarrow> Int_zero | Some p \<Rightarrow> Float p);
            st1 = register_entity
                    \<lparr>en_id = outlet_id, en_name = outlet_name, en_type = ''media_outlet'',
                     en_media_type = Some (lower outlet_type), en_image_url = t_image outlet_div\<rparr> st;
            relationship =
              \<lparr>source_id = owner_id, target_id = outlet_id, rel_type = ''owns'',
               percentage = ownership_percentage,
               description = owns_description float_str (t_percentage outlet_div) outlet_name\<rparr>
        in add_relationship_edge True relationship (append_relationship relationship st1))"

fun contains :: "string \<Rightarrow> string \<Rightarrow> bool" where
  \<comment> \<open>\<open>term in text\<close>\<close>
  "contains t [] = (t = [])"
| "contains t (c # s) = (take (length t) (c # s) = t \<or> contains t s)"

definition relationship_type :: "string \<Rightarrow> string" where
  "relationship_type descr =
     (let d = lower descr
      in if list_ex (\<lambda>t. contains t d) [''wife'', ''husband'', ''spouse''] then ''spouse''
         else if list_ex (\<lambda>t. contains t d) [''son'', ''daughter'', ''child''] then ''child''
         else if list_ex (\<lambda>t. contains t d) [''brother'', ''sister'', ''sibling''] then ''sibling''
         else if list_ex (\<lambda>t. contains t d) [''father'', ''mother'', ''parent''] then ''parent''
         else ''family_relation'')"

definition process_family_member ::
  "string \<times> string \<Rightarrow> string \<Rightarrow> 'f extractor \<Rightarrow> 'f extractor" where
  \<comment> \<open>from line 373 on: the argument is the name and the description the text was split into\<close>
  "process_family_member text owner_id st =
     (let family_member_name = fst text; descr = snd text
      in if family_member_name = [] \<or> length family_member_name < 3 then st
         else
           let family_member_id = sanitize_id family_member_name
           in if family_member_id = owner_id then st
              else
                let st1 =
                      (if family_member_id \<notin> set (map fst (owners st))
                          \<and> family_member_id \<notin> set (map fst (entities st))
                       then register_owner
                              \<lparr>ow_id = family_member_id, ow_name = family_member_name,
                               ow_description = descr, ow_image_url = [],
                               ow_type = ''owner''\<rparr> st
                       else st);
                    relationship =
                      \<lparr>source_id = owner_id, target_id = family_member_id,
                       rel_type = relationship_type descr, percentage = Int_zero,
                       description = descr\<rparr>
                in add_relationship_edge False relationship (append_relationship relationship st1))"

definition process_html_file :: "('f \<Rightarrow> string) \<Rightarrow> 'f page \<Rightarrow> 'f extractor \<Rightarrow> 'f extractor" where
  "process_html_file float_str pg st =
     (let owner_name = pg_owner_name pg;
          owner_id = sanitize_id owner_name;
          st1 = register_owner
                  \<lparr>ow_id = owner_id, ow_name = owner_name,
                   ow_description = pg_owner_description pg,
                   ow_image_url = pg_owner_image pg, ow_type = ''owner''\<rparr> st;
          st2 = foldl (\<lambda>s c. process_media_company float_str c owner_id s) st1 (pg_companies pg);
          st3 = foldl (\<lambda>s c. process_media_outlet float_str c owner_id s) st2 (pg_outlets pg)
      in foldl (\<lambda>s t. process_family_member t owner_id s) st3 (pg_family pg))"

section \<open>Indirect ownership\<close>

definition ownership_graph :: "'f edge_attrs digraph \<Rightarrow> 'f number digraph" where
  \<comment> \<open>the copy of the graph with only the edges of type \<open>owns\<close>, each carrying its percentage
      (\<open>d.get('percentage', 0)\<close>)\<close>
  "ownership_graph g =
     foldl (\<lambda>og (u, v, d).
              add_edge u v (\<lambda>_. case ed_percentage d of None \<Rightarrow> Int_zero | Some p \<Rightarrow> p) og)
           []
           (filter (\<lambda>(u, v, d). ed_type d = Some ''owns'') (edges g))"

fun path_percentage ::
  "'f float_ops \<Rightarrow> 'f number digraph \<Rightarrow> node list \<Rightarrow> 'f \<Rightarrow> error + 'f" where
  \<comment> \<open>the loop over \<open>range(len(path) - 1)\<close>, which does
      \<open>path_percentage = path_percentage * (edge_percentage / 100.0)\<close>;
      \<open>ownership_graph[u][v]\<close> raises \<open>KeyError\<close> when the edge is missing\<close>
  "path_percentage ops og (u # v # rest) acc =
     (case edge_data_of og u v of
        None \<Rightarrow> Inl KeyError
      | Some edge_percentage \<Rightarrow>
          path_percentage ops og (v # rest)
            (fl_mul ops acc (fl_div100 ops (to_float ops edge_percentage))))"
| "path_percentage ops og path acc = Inr acc"

fun sum_paths ::
  "'f float_ops \<Rightarrow> 'f number digraph \<Rightarrow> node list list \<Rightarrow> 'f number \<Rightarrow> error + 'f number" where
  \<comment> \<open>the loop over the paths: \<open>path_percentage = 100.0\<close>, the inner loop, and then
      \<open>indirect_percentage += path_percentage\<close>\<close>
  "sum_paths ops og [] acc = Inr acc"
| "sum_paths ops og (path # paths) acc =
     (case path_percentage ops og path (fl_hundred ops) of
        Inl e \<Rightarrow> Inl e
      | Inr p \<Rightarrow> sum_paths ops og paths (Float (fl_add ops (to_float ops acc) p)))"

definition indirect_percentage ::
  "'f float_ops \<Rightarrow> bool \<Rightarrow> 'f number digraph \<Rightarrow> node \<Rightarrow> node \<Rightarrow> error + 'f number" where
  \<comment> \<open>\<open>indirect_percentage = 0\<close> and the loop over \<open>nx.all_simple_paths(..., cutoff=3)\<close>\<close>
  "indirect_percentage ops trivial og owner_id entity_id =
     sum_paths ops og (all_simple_paths trivial og owner_id entity_id 3) Int_zero"

definition indirect_relationship ::
  "'f float_ops \<Rightarrow> string \<Rightarrow> string \<Rightarrow> 'f number \<Rightarrow> string \<Rightarrow> 'f relationship" where
  "indirect_relationship ops owner_id entity_id indirect_pct entity_name =
     \<lparr>source_id = owner_id, target_id = entity_id, rel_type = ''indirect_owns'',
      percentage = indirect_pct,
      description = ''Indirectly owns '' @ format_2f ops indirect_pct @ ''% of '' @ entity_name\<rparr>"

definition process_pair ::
  "'f float_ops \<Rightarrow> bool \<Rightarrow> 'f number digraph \<Rightarrow> string \<Rightarrow> string \<Rightarrow> 'f extractor
     \<Rightarrow> error + 'f extractor" where
  \<comment> \<open>the body of the inner loop; \<open>Inl\<close> is an exception, raised before the state is changed\<close>
  "process_pair ops trivial og owner_id entity_id st =
     (if has_edge og owner_id entity_id then Inr st
      else
        case has_path og owner_id entity_id of
          Inl e \<Rightarrow> Inl e
        | Inr False \<Rightarrow> Inr st
        | Inr True \<Rightarrow>
            (case indirect_percentage ops trivial og owner_id entity_id of
               Inl e \<Rightarrow> Inl e
             | Inr indirect_pct \<Rightarrow>
                 if greater_one ops indirect_pct then
                   (case map_of (entities st) entity_id of
                      None \<Rightarrow> Inl KeyError
                    | Some en \<Rightarrow>
                        let r = indirect_relationship ops owner_id entity_id indirect_pct
                                  (en_name en)
                        in Inr (append_relationship r (add_relationship_edge True r st)))
                 else Inr st))"

fun entity_loop ::
  "'f float_ops \<Rightarrow> bool \<Rightarrow> 'f number digraph \<Rightarrow> string \<Rightarrow> string list \<Rightarrow> 'f extractor
     \<Rightarrow> 'f extractor \<times> error option" where
  \<comment> \<open>\<open>for entity_id in self.entities\<close>; an exception leaves the loop with the state reached\<close>
  "entity_loop ops trivial og owner_id [] st = (st, None)"
| "entity_loop ops trivial og owner_id (entity_id # rest) st =
     (case process_pair ops trivial og owner_id entity_id st of
        Inl e \<Rightarrow> (st, Some e)
      | Inr st' \<Rightarrow> entity_loop ops trivial og owner_id rest st')"

fun owner_loop ::
  "'f float_ops \<Rightarrow> bool \<Rightarrow> 'f number digraph \<Rightarrow> string list \<Rightarrow> 'f extractor
     \<Rightarrow> 'f extractor \<times> error option" where
  \<comment> \<open>\<open>for owner_id in self.owners\<close>\<close>
  "owner_loop ops trivial og [] st = (st, None)"
| "owner_loop ops trivial og (owner_id # rest) st =
     (case entity_loop ops trivial og owner_id (map fst (entities st)) st of
        (st', Some e) \<Rightarrow> (st', Some e)
      | (st', None) \<Rightarrow> owner_loop ops trivial og rest st')"

definition calculate_indirect_ownership ::
  "'f float_ops \<Rightarrow> bool \<Rightarrow> 'f extractor \<Rightarrow> 'f extractor \<times> error option" where
  \<comment> \<open>the whole body stands in one \<open>try\<close>: an exception ends the computation and is logged
      (the second component), and the state keeps what was added before it\<close>
  "calculate_indirect_ownership ops trivial st =
     owner_loop ops trivial (ownership_graph (graph st)) (map fst (owners st)) st"

section \<open>The whole run\<close>

record 'f network =
  nw_graph :: "'f edge_attrs digraph"
  nw_relationships :: "'f relationship list"
  nw_owners :: "owner_info list"
  nw_entities :: "entity_info list"

definition build_network :: "'f extractor \<Rightarrow> 'f network" where
  \<comment> \<open>the tables are data frames with one row per element, in the order of the element's
      collection; the adjacency matrix is not modelled\<close>
  "build_network st =
     \<lparr>nw_graph = graph st, nw_relationships = relationships st,
      nw_owners = map snd (owners st), nw_entities = map snd (entities st)\<rparr>"

definition process_files :: "('f \<Rightarrow> string) \<Rightarrow> 'f page list \<Rightarrow> 'f extractor" where
  \<comment> \<open>the loop of \<open>extract_all_data\<close> over the files that were read\<close>
  "process_files float_str pages = foldl (\<lambda>st pg. process_html_file float_str pg st) init pages"

definition extract_all_data ::
  "('f \<Rightarrow> string) \<Rightarrow> 'f float_ops \<Rightarrow> bool \<Rightarrow> 'f page list \<Rightarrow> 'f network" where
  "extract_all_data float_str ops trivial pages =
     build_network (fst (calculate_indirect_ownership ops trivial (process_files float_str pages)))"

section \<open>Python's float arithmetic\<close>

text \<open>
  A Python float is an IEEE 754 binary64 number: a finite number, given here by its exact
  rational value, a negative zero, an infinity or a NaN. The finite floats are zero and the
  numbers \<open>m * 2 ^ q\<close> with \<open>m < 2 ^ 53\<close> and \<open>- 1074 \<le> q \<le> 971\<close>. An operation returns the float
  nearest to the exact result, the one with the even \<open>m\<close> when two are equally near, and an
  infinity when that rounding reaches \<open>2 ^ 1024\<close>. Python raises no exception in the
  operations below.
\<close>

datatype double = Finite rat | Neg_zero | Pos_inf | Neg_inf | NaN

function bit_length :: "int \<Rightarrow> int" where
  \<comment> \<open>the number of binary digits of a number that is not negative\<close>
  "bit_length n = (if n \<le> 0 then 0 else 1 + bit_length (n div 2))"
  by pat_completeness auto
termination
  by (relation "measure nat") auto

declare bit_length.simps [simp del]

definition floor_log2 :: "rat \<Rightarrow> int" where
  \<comment> \<open>for \<open>x > 0\<close>, the \<open>e\<close> with \<open>2 ^ e \<le> x < 2 ^ (e + 1)\<close>\<close>
  "floor_log2 x = (if 1 \<le> x then bit_length \<lfloor>x\<rfloor> - 1 else - bit_length (\<lceil>1 / x\<rceil> - 1))"

function power2 :: "int \<Rightarrow> rat" where
  \<comment> \<open>\<open>2 ^ e\<close> for \<open>e \<ge> 0\<close>, by repeated squaring\<close>
  "power2 e =
     (if e \<le> 0 then 1
      else if even e then (power2 (e div 2)) ^ 2
      else 2 * power2 (e - 1))"
  by pat_completeness auto
termination
  by (relation "measure nat") auto

declare power2.simps [simp del]

definition pow2 :: "int \<Rightarrow> rat" where
  \<comment> \<open>\<open>2 ^ e\<close> for an integer \<open>e\<close>\<close>
  "pow2 e = (if 0 \<le> e then power2 e else 1 / power2 (- e))"

definition round_half_even :: "rat \<Rightarrow> int" where
  "round_half_even y =
     (let f = \<lfloor>y\<rfloor>; r = y - of_int f
      in if r < 1 / 2 then f else if 1 / 2 < r then f + 1 else if even f then f else f + 1)"

definition round_double :: "bool \<Rightarrow> rat \<Rightarrow> double" where
  \<comment> \<open>the float for an exact result with the magnitude \<open>a\<close>, negative when \<open>neg\<close> holds; \<open>2 ^ q\<close>
      is the distance between two floats near \<open>a\<close>\<close>
  "round_double neg a =
     (if a = 0 then (if neg then Neg_zero else Finite 0)
      else
        let q = max (floor_log2 a) (- 1022) - 52;
            m = round_half_even (a / pow2 q);
            v = of_int m * pow2 q
        in if pow2 1024 \<le> v then (if neg then Neg_inf else Pos_inf)
           else if m = 0 then (if neg then Neg_zero else Finite 0)
           else Finite (if neg then - v else v))"

fun is_negative :: "double \<Rightarrow> bool" where
  "is_negative (Finite x) = (x < 0)"
| "is_negative Neg_zero = True"
| "is_negative Neg_inf = True"
| "is_negative _ = False"

fun magnitude :: "double \<Rightarrow> rat" where
  "magnitude (Finite x) = \<bar>x\<bar>"
| "magnitude _ = 0"

fun exact_value :: "double \<Rightarrow> rat" where
  "exact_value (Finite x) = x"
| "exact_value _ = 0"

definition is_infinite :: "double \<Rightarrow> bool" where
  "is_infinite a = (a = Pos_inf \<or> a = Neg_inf)"

definition is_zero :: "double \<Rightarrow> bool" where
  "is_zero a = (a = Finite 0 \<or> a = Neg_zero)"

definition double_mul :: "double \<Rightarrow> double \<Rightarrow> double" where
  "double_mul a b =
     (if a = NaN \<or> b = NaN then NaN
      else if is_infinite a \<or> is_infinite b then
        (if is_zero a \<or> is_zero b then NaN
         else if is_negative a \<noteq> is_negative b then Neg_inf else Pos_inf)
      else round_double (is_negative a \<noteq> is_negative b) (magnitude a * magnitude b))"

definition double_add :: "double \<Rightarrow> double \<Rightarrow> double" where
  "double_add a b =
     (if a = NaN \<or> b = NaN then NaN
      else if is_infinite a then (if is_infinite b \<and> a \<noteq> b then NaN else a)
      else if is_infinite b then b
      else
        let s = exact_value a + exact_value b
        in if s = 0 then (if a = Neg_zero \<and> b = Neg_zero then Neg_zero else Finite 0)
           else round_double (s < 0) \<bar>s\<bar>)"

definition double_div100 :: "double \<Rightarrow> double" where
  "double_div100 a =
     (if a = NaN \<or> is_infinite a then a
      else round_double (is_negative a) (magnitude a / 100))"

fun double_gt1 :: "double \<Rightarrow> bool" where
  "double_gt1 (Finite x) = (1 < x)"
| "double_gt1 Pos_inf = True"
| "double_gt1 _ = False"

function digits :: "int \<Rightarrow> string" where
  \<comment> \<open>the decimal digits of a number that is not negative\<close>
  "digits n = (if n < 10 then [char_of (48 + n)] else digits (n div 10) @ [char_of (48 + n mod 10)])"
  by pat_completeness auto
termination
  by (relation "measure nat") auto

declare digits.simps [simp del]

definition decimal_2f :: "rat \<Rightarrow> string" where
  \<comment> \<open>the decimal numeral with two decimals nearest to \<open>x \<ge> 0\<close>, the even one of two equally
      near\<close>
  "decimal_2f x =
     (let n = round_half_even (x * 100)
      in digits (n div 100) @ ''.'' @ [char_of (48 + (n mod 100) div 10), char_of (48 + n mod 10)])"

fun double_format_2f :: "double \<Rightarrow> string" where
  "double_format_2f (Finite x) = (if x < 0 then ''-'' @ decimal_2f (- x) else decimal_2f x)"
| "double_format_2f Neg_zero = ''-0.00''"
| "double_format_2f Pos_inf = ''inf''"
| "double_format_2f Neg_inf = ''-inf''"
| "double_format_2f NaN = ''nan''"

definition binary64 :: "double float_ops" where
  "binary64 =
     \<lparr>fl_zero = Finite 0, fl_hundred = Finite 100, fl_div100 = double_div100,
      fl_mul = double_mul, fl_add = double_add, fl_gt1 = double_gt1,
      fl_format_2f = double_format_2f\<rparr>"

section \<open>Notions used in the statements\<close>

text \<open>
  The definitions of this section are not part of the extractor; the statements below are
  written with them. \<open>wf_digraph\<close> holds of every graph built by \<open>add_node\<close> and \<open>add_edge\<close>
  from the empty one: no node and no successor is stored twice, and every successor is a node.
  A \<open>simple_path\<close> is a path without a repeated node; a \<open>counted_path\<close> is one that
  \<open>all_simple_paths\<close> reports for the given cutoff.
\<close>

definition wf_digraph :: "'a digraph \<Rightarrow> bool" where
  "wf_digraph g =
     (distinct (nodes g) \<and> (\<forall>u. distinct (successors g u))
      \<and> (\<forall>u. set (successors g u) \<subseteq> set (nodes g)))"

definition simple_path :: "'a digraph \<Rightarrow> node \<Rightarrow> node \<Rightarrow> node list \<Rightarrow> bool" where
  "simple_path g s t p =
     (p \<noteq> [] \<and> hd p = s \<and> last p = t \<and> distinct p \<and> successively (has_edge g) p)"

definition counted_path :: "bool \<Rightarrow> 'a digraph \<Rightarrow> node \<Rightarrow> node \<Rightarrow> nat \<Rightarrow> node list \<Rightarrow> bool" where
  "counted_path trivial g s t cutoff p =
     (simple_path g s t p \<and> length p - 1 \<le> cutoff \<and> (1 < length p \<or> trivial))"

text \<open>
  The percentage of a path is \<open>100.0\<close> multiplied, edge after edge from the owner on, by the
  edge's percentage divided by \<open>100.0\<close>. \<open>float_sum\<close> adds floats from left to right, starting
  from the integer \<open>0\<close>. Float operations are not associative, so both are written in the order
  of the operations.
\<close>

definition spec_path_percentage :: "'f float_ops \<Rightarrow> 'f number digraph \<Rightarrow> node list \<Rightarrow> 'f" where
  "spec_path_percentage ops og p =
     foldl (\<lambda>acc (u, v).
              fl_mul ops acc
                (fl_div100 ops
                   (to_float ops (case edge_data_of og u v of None \<Rightarrow> Int_zero | Some e \<Rightarrow> e))))
           (fl_hundred ops) (zip p (tl p))"

definition float_sum :: "'f float_ops \<Rightarrow> 'f list \<Rightarrow> 'f number" where
  "float_sum ops xs = foldl (\<lambda>acc x. Float (fl_add ops (to_float ops acc) x)) Int_zero xs"

text \<open>
  \<open>indirect_emitted\<close> is what the indirect-ownership pass appends to the relationships list.
  \<open>pair_error\<close> and \<open>pair_relationships\<close> give, for one pair of the double loop, the exception
  the loop body raises and the relationships it emits; \<open>first_error\<close> is the exception that
  ends the pass.
\<close>

definition indirect_emitted :: "'f float_ops \<Rightarrow> bool \<Rightarrow> 'f extractor \<Rightarrow> 'f relationship list" where
  "indirect_emitted ops trivial st =
     drop (length (relationships st))
       (relationships (fst (calculate_indirect_ownership ops trivial st)))"

definition pair_error ::
  "'f float_ops \<Rightarrow> bool \<Rightarrow> 'f number digraph \<Rightarrow> (string \<times> entity_info) list \<Rightarrow> string \<times> string
     \<Rightarrow> error option" where
  "pair_error ops trivial og ents pair =
     (case pair of (owner_id, entity_id) \<Rightarrow>
        if has_edge og owner_id entity_id then None
        else
          case has_path og owner_id entity_id of
            Inl e \<Rightarrow> Some e
          | Inr False \<Rightarrow> None
          | Inr True \<Rightarrow>
              (case indirect_percentage ops trivial og owner_id entity_id of
                 Inl e \<Rightarrow> Some e
               | Inr indirect_pct \<Rightarrow>
                   if greater_one ops indirect_pct \<and> map_of ents entity_id = None
                   then Some KeyError else None))"

definition pair_relationships ::
  "'f float_ops \<Rightarrow> bool \<Rightarrow> 'f number digraph \<Rightarrow> (string \<times> entity_info) list \<Rightarrow> string \<times> string
     \<Rightarrow> 'f relationship list" where
  "pair_relationships ops trivial og ents pair =
     (case pair of (owner_id, entity_id) \<Rightarrow>
        if has_edge og owner_id entity_id then []
        else if has_path og owner_id entity_id = Inr True then
          (case indirect_percentage ops trivial og owner_id entity_id of
             Inl e \<Rightarrow> []
           | Inr indirect_pct \<Rightarrow>
               if greater_one ops indirect_pct then
                 (case map_of ents entity_id of
                    None \<Rightarrow> []
                  | Some en \<Rightarrow>
                      [indirect_relationship ops owner_id entity_id indirect_pct (en_name en)])
               else [])
        else [])"

definition emit_all :: "'f relationship list \<Rightarrow> 'f extractor \<Rightarrow> 'f extractor" where
  "emit_all rs st = foldl (\<lambda>s r. append_relationship r (add_relationship_edge True r s)) st rs"

definition no_error ::
  "'f float_ops \<Rightarrow> bool \<Rightarrow> 'f number digraph \<Rightarrow> (string \<times> entity_info) list \<Rightarrow> string \<times> string
     \<Rightarrow> bool" where
  "no_error ops trivial og ents pair = (pair_error ops trivial og ents pair = None)"

definition first_error ::
  "'f float_ops \<Rightarrow> bool \<Rightarrow> 'f number digraph \<Rightarrow> (string \<times> entity_info) list
     \<Rightarrow> (string \<times> string) list \<Rightarrow> error option" where
  "first_error ops trivial og ents pairs =
     (case dropWhile (no_error ops trivial og ents) pairs of
        [] \<Rightarrow> None
      | pair # _ \<Rightarrow> pair_error ops trivial og ents pair)"

definition indirect_between ::
  "'f float_ops \<Rightarrow> bool \<Rightarrow> 'f extractor \<Rightarrow> string \<Rightarrow> string \<Rightarrow> 'f relationship list" where
  "indirect_between ops trivial st a e =
     filter (\<lambda>r. source_id r = a \<and> target_id r = e) (indirect_emitted ops trivial st)"

text \<open>
  Example inputs, with Python's floats. \<open>example_float_str\<close> prints the floats of the
  examples as Python's \<open>str\<close> does: these are whole numbers of a few digits (\<open>60.0\<close>), an
  infinity and a NaN.
\<close>

fun example_float_str :: "double \<Rightarrow> string" where
  "example_float_str (Finite x) = (if x < 0 then ''-'' else []) @ digits \<lfloor>\<bar>x\<bar>\<rfloor> @ ''.0''"
| "example_float_str Neg_zero = ''-0.0''"
| "example_float_str Pos_inf = ''inf''"
| "example_float_str Neg_inf = ''-inf''"
| "example_float_str NaN = ''nan''"

definition company :: "string \<Rightarrow> double \<Rightarrow> double teaser" where
  "company name pct =
     \<lparr>t_link = True, t_name = Some name, t_mediatype = None, t_percentage = Some pct,
      t_image = []\<rparr>"

definition owner_page :: "string \<Rightarrow> double teaser list \<Rightarrow> (string \<times> string) list \<Rightarrow> double page" where
  "owner_page name companies family =
     \<lparr>pg_owner_name = name, pg_owner_description = [], pg_owner_image = [],
      pg_companies = companies, pg_outlets = [], pg_family = family\<rparr>"

definition chain_state :: "double extractor" where
  "chain_state = process_files example_float_str
     [owner_page ''A'' [company ''B'' (Finite 60)] [], owner_page ''B'' [company ''C'' (Finite 50)] []]"

definition two_path_state :: "double extractor" where
  "two_path_state = process_files example_float_str
     [owner_page ''A'' [company ''B'' (Finite 60), company ''D'' (Finite 40)] [],
      owner_page ''B'' [company ''C'' (Finite 50)] [],
      owner_page ''D'' [company ''C'' (Finite 50)] []]"

definition lone_owner_state :: "double extractor" where
  "lone_owner_state = process_files example_float_str
     [owner_page ''X'' [] [],
      owner_page ''A'' [company ''B'' (Finite 60)] [], owner_page ''B'' [company ''C'' (Finite 50)] []]"

definition long_chain_state :: "double extractor" where
  "long_chain_state = process_files example_float_str
     [owner_page ''A'' [company ''B'' (Finite 100)] [], owner_page ''B'' [company ''C'' (Finite 100)] [],
      owner_page ''C'' [company ''D'' (Finite 100)] [], owner_page ''D'' [company ''E'' (Finite 100)] []]"

definition threshold_state :: "double extractor" where
  \<comment> \<open>the exact sum of the two paths from \<open>a\<close> to \<open>c\<close> is 1; the floats give
      \<open>0.30000000000000004 + 0.7000000000000001 = 1.0000000000000002\<close>\<close>
  "threshold_state = process_files example_float_str
     [owner_page ''A'' [company ''B'' (Finite 3), company ''D'' (Finite 7)] [],
      owner_page ''B'' [company ''C'' (Finite 10)] [],
      owner_page ''D'' [company ''C'' (Finite 10)] []]"

definition small_state :: "double extractor" where
  "small_state = process_files example_float_str
     [owner_page ''A'' [company ''B'' (Finite 1)] [], owner_page ''B'' [company ''C'' (Finite 50)] []]"

definition special_state :: "double extractor" where
  \<comment> \<open>\<open>float\<close> returns an infinity for the text \<open>inf\<close> and a NaN for the text \<open>nan\<close>\<close>
  "special_state = process_files example_float_str
     [owner_page ''A'' [company ''B'' Pos_inf] [], owner_page ''B'' [company ''C'' (Finite 50)] [],
      owner_page ''X'' [company ''Y'' NaN] [], owner_page ''Y'' [company ''Z'' (Finite 50)] []]"




text \<open>
  The registry is the pair of the owners and the entities collections. The relationship and the
  registration step of each function that appends a relationship are named, so that the state
  to which the relationship is appended can be written down; the \<open>_steps\<close> lemmas below show
  that the functions are composed of them.
\<close>

definition registered :: "'f extractor \<Rightarrow> string \<Rightarrow> bool" where
  "registered st x = (x \<in> set (map fst (owners st)) \<or> x \<in> set (map fst (entities st)))"

definition endpoints_registered :: "'f relationship \<Rightarrow> 'f extractor \<Rightarrow> bool" where
  "endpoints_registered r st =
     (registered st (source_id r) \<and> registered st (target_id r)
      \<and> source_id r \<in> set (nodes (graph st)) \<and> target_id r \<in> set (nodes (graph st)))"

definition registry_in_graph :: "'f extractor \<Rightarrow> bool" where
  "registry_in_graph st =
     list_all (\<lambda>k. k \<in> set (nodes (graph st))) (map fst (owners st) @ map fst (entities st))"

definition all_endpoints_registered :: "'f extractor \<Rightarrow> bool" where
  "all_endpoints_registered st = list_all (\<lambda>r. endpoints_registered r st) (relationships st)"

definition company_entity :: "'f teaser \<Rightarrow> entity_info" where
  "company_entity company_div =
     (let company_name = (case t_name company_div of None \<Rightarrow> ''Unknown Company'' | Some n \<Rightarrow> n)
      in \<lparr>en_id = sanitize_id company_name, en_name = company_name, en_type = ''company'',
          en_media_type = None, en_image_url = t_image company_div\<rparr>)"

definition company_relationship :: "('f \<Rightarrow> string) \<Rightarrow> 'f teaser \<Rightarrow> string \<Rightarrow> 'f relationship" where
  "company_relationship float_str company_div owner_id =
     \<lparr>source_id = owner_id, target_id = en_id (company_entity company_div), rel_type = ''owns'',
      percentage = (case t_percentage company_div of None \<Rightarrow> Int_zero | Some p \<Rightarrow> Float p),
      description = owns_description float_str (t_percentage company_div)
                      (en_name (company_entity company_div))\<rparr>"

definition outlet_entity :: "'f teaser \<Rightarrow> entity_info" where
  "outlet_entity outlet_div =
     (let outlet_name = (case t_name outlet_div of None \<Rightarrow> ''Unknown Outlet'' | Some n \<Rightarrow> n);
          outlet_type = (case t_mediatype outlet_div of None \<Rightarrow> ''unknown'' | Some m \<Rightarrow> m)
      in \<lparr>en_id = sanitize_id outlet_name, en_name = outlet_name, en_type = ''media_outlet'',
          en_media_type = Some (lower outlet_type), en_image_url = t_image outlet_div\<rparr>)"

definition outlet_relationship :: "('f \<Rightarrow> string) \<Rightarrow> 'f teaser \<Rightarrow> string \<Rightarrow> 'f relationship" where
  "outlet_relationship float_str outlet_div owner_id =
     \<lparr>source_id = owner_id, target_id = en_id (outlet_entity outlet_div), rel_type = ''owns'',
      percentage = (case t_percentage outlet_div of None \<Rightarrow> Int_zero | Some p \<Rightarrow> Float p),
      description = owns_description float_str (t_percentage outlet_div)
                      (en_name (outlet_entity outlet_div))\<rparr>"

definition family_skipped :: "string \<times> string \<Rightarrow> string \<Rightarrow> bool" where
  "family_skipped text owner_id = (length (fst text) < 3 \<or> sanitize_id (fst text) = owner_id)"

definition family_registration :: "string \<times> string \<Rightarrow> 'f extractor \<Rightarrow> 'f extractor" where
  "family_registration text st =
     (if registered st (sanitize_id (fst text)) then st
      else register_owner
             \<lparr>ow_id = sanitize_id (fst text), ow_name = fst text, ow_description = snd text,
              ow_image_url = [], ow_type = ''owner''\<rparr> st)"

definition family_relationship :: "string \<times> string \<Rightarrow> string \<Rightarrow> 'f relationship" where
  "family_relationship text owner_id =
     \<lparr>source_id = owner_id, target_id = sanitize_id (fst text),
      rel_type = relationship_type (snd text), percentage = Int_zero, description = snd text\<rparr>"

definition extractor_invariant :: "'f extractor \<Rightarrow> bool" where
  "extractor_invariant st = (registry_in_graph st \<and> all_endpoints_registered st)"

definition chain_pages :: "double page list" where
  "chain_pages = [owner_page ''A'' [company ''B'' (Finite 60)] [], owner_page ''B'' [company ''C'' (Finite 50)] []]"

section \<open>Properties of \<open>sanitize_id\<close>\<close>

lemma collapse_all_underscores:
  "s \<noteq> [] \<Longrightarrow> \<forall>c\<in>set s. c = CHR ''_'' \<Longrightarrow> collapse_underscores s = ''_''"
  by (induction s rule: collapse_underscores.induct) simp_all

lemma replace_special_no_alnum:
  "\<forall>c\<in>set s. \<not> is_alnum c \<Longrightarrow> replace_special s = replicate (length s) (CHR ''_'')"
  by (induction s) (auto simp: replace_special_def)

lemma lower_underscores:
  "lower (replicate n (CHR ''_'')) = replicate n (CHR ''_'')"
  by (induction n) (auto simp: lower_def lower_char_def)

lemma sanitize_id_no_alnum:
  assumes "name \<noteq> []" and "\<forall>c\<in>set name. \<not> is_alnum c"
  shows "sanitize_id name = []"
proof -
  let ?u = "replicate (length name) (CHR ''_'')"
  have "lower (replace_special name) = ?u"
    using assms(2) by (simp add: replace_special_no_alnum lower_underscores)
  moreover have "collapse_underscores ?u = ''_''"
    using assms(1) by (intro collapse_all_underscores) auto
  ultimately show ?thesis
    using assms(1) by (simp add: sanitize_id_def strip_underscores_def)
qed

text \<open>
  C10. A non-empty name with no ASCII letter or digit is sanitised to the empty string, not to
  the sentinel \<open>unknown\<close>; two such names therefore get the same, empty, identifier.
\<close>

theorem sanitize_id_no_alnum_empty:
  assumes "x \<noteq> []" and "\<forall>c\<in>set x. \<not> is_alnum c"
    and "y \<noteq> []" and "\<forall>c\<in>set y. \<not> is_alnum c"
  shows "sanitize_id x = [] \<and> sanitize_id x \<noteq> ''unknown'' \<and> sanitize_id x = sanitize_id y"
  using assms by (simp add: sanitize_id_no_alnum)

theorem sanitize_id_no_alnum_empty_witness:
  "''-'' \<noteq> [] \<and> ''***'' \<noteq> [] \<and> ''-'' \<noteq> ''***''
   \<and> sanitize_id ''-'' = [] \<and> sanitize_id ''-'' \<noteq> ''unknown''
   \<and> sanitize_id ''-'' = sanitize_id ''***''"
  using sanitize_id_no_alnum_empty [of "''-''" "''***''"]
  by (auto simp add: is_alnum_def)

text \<open>
  C4. Sanitising is not idempotent on a name such as \<open>-\<close>: the first pass gives the empty
  string, and the second pass maps the empty string to \<open>unknown\<close>.
\<close>

theorem sanitize_id_twice_dash:
  "sanitize_id ''-'' = [] \<and> sanitize_id (sanitize_id ''-'') = ''unknown''
   \<and> sanitize_id (sanitize_id ''-'') \<noteq> sanitize_id ''-''"
  by (simp add: sanitize_id_def strip_underscores_def lower_def lower_char_def
      replace_special_def is_alnum_def)

section \<open>Powers of two\<close>

lemma power2_eq: "0 \<le> e \<Longrightarrow> power2 e = 2 ^ nat e"
proof (induction e rule: power2.induct)
  case (1 e)
  show ?case
  proof (cases "e = 0")
    case True
    then show ?thesis by (simp add: power2.simps [of 0])
  next
    case False
    then have pos: "0 < e" using "1.prems" by simp
    show ?thesis
    proof (cases "even e")
      case True
      then obtain k where k: "e = 2 * k" by (elim evenE)
      have "power2 e = (power2 (e div 2)) ^ 2"
        using pos True by (simp add: power2.simps [of e])
      moreover have "power2 (e div 2) = 2 ^ nat (e div 2)"
        using pos True by (intro "1.IH"(1)) simp_all
      ultimately have "power2 e = (2 ^ nat k) ^ 2"
        using k by simp
      also have "\<dots> = 2 ^ (nat k * 2)" by (simp only: power_mult)
      also have "nat k * 2 = nat e" using k pos by simp
      finally show ?thesis .
    next
      case odd: False
      have "power2 e = 2 * power2 (e - 1)"
        using pos odd by (simp add: power2.simps [of e])
      moreover have "power2 (e - 1) = 2 ^ nat (e - 1)"
        using pos odd by (intro "1.IH"(2)) simp_all
      ultimately have "power2 e = 2 * 2 ^ nat (e - 1)" by simp
      also have "\<dots> = 2 ^ Suc (nat (e - 1))" by simp
      also have "Suc (nat (e - 1)) = nat e" using pos by simp
      finally show ?thesis .
    qed
  qed
qed

lemma pow2_eq: "pow2 e = 2 powi e"
proof (cases "0 \<le> e")
  case True
  then show ?thesis by (simp add: pow2_def power2_eq [OF True] power_int_def)
next
  case False
  then have "0 \<le> - e" by simp
  then have "power2 (- e) = 2 ^ nat (- e)" by (rule power2_eq)
  moreover have "pow2 e = 1 / power2 (- e)" using False by (simp add: pow2_def)
  moreover have "(2::rat) powi e = inverse (2 ^ nat (- e))"
    using False by (simp add: power_int_def power_one_over inverse_eq_divide)
  ultimately show ?thesis by (simp only: inverse_eq_divide)
qed

section \<open>Properties of the graph and of the indirect-ownership pass\<close>

lemma simple_paths_set:
  "set (simple_paths g t k visited vs) =
     {visited @ q | q. q \<noteq> [] \<and> hd q \<in> set vs \<and> successively (has_edge g) q \<and> distinct q
        \<and> set q \<inter> set visited = {} \<and> last q = t \<and> length q \<le> Suc k}"
proof (induction g t k visited vs rule: simple_paths.induct)
  case (1 g t k visited)
  then show ?case by simp
next
  case (2 g t k visited v vs)
  let ?R = "\<lambda>k visited vs.
     {visited @ q | q. q \<noteq> [] \<and> hd q \<in> set vs \<and> successively (has_edge g) q \<and> distinct q
        \<and> set q \<inter> set visited = {} \<and> last q = t \<and> length q \<le> Suc k}"
  let ?first = "if v \<in> set visited then []
      else if v = t then [visited @ [v]]
      else case k of 0 \<Rightarrow> [] | Suc k' \<Rightarrow> simple_paths g t k' (visited @ [v]) (successors g v)"
  let ?H = "{visited @ q | q. q \<noteq> [] \<and> hd q = v \<and> successively (has_edge g) q \<and> distinct q
        \<and> set q \<inter> set visited = {} \<and> last q = t \<and> length q \<le> Suc k}"
  have split: "?R k visited (v # vs) = ?H \<union> ?R k visited vs"
    by auto
  have first: "set ?first = ?H"
  proof (cases "v \<in> set visited")
    case True
    have "?H = {}"
    proof -
      have "False" if "q \<noteq> []" "hd q = v" "set q \<inter> set visited = {}" for q
        using that True by (cases q) auto
      then show ?thesis by blast
    qed
    then show ?thesis using True by simp
  next
    case nv: False
    show ?thesis
    proof (cases "v = t")
      case True
      have "?H = {visited @ [v]}"
      proof (intro set_eqI iffI)
        fix p assume "p \<in> ?H"
        then obtain q where q: "p = visited @ q" "q \<noteq> []" "hd q = v" "distinct q" "last q = t"
          by blast
        then obtain q' where q': "q = v # q'" by (cases q) auto
        have "q' = []"
        proof (rule ccontr)
          assume "q' \<noteq> []"
          then have "last q' = t" "last q' \<in> set q'" using q(5) q' by auto
          then show False using q(4) q' True by auto
        qed
        then show "p \<in> {visited @ [v]}" using q(1) q' by simp
      next
        fix p assume "p \<in> {visited @ [v]}"
        then have "p = visited @ [v] \<and> [v] \<noteq> [] \<and> hd [v] = v \<and> successively (has_edge g) [v]
          \<and> distinct [v] \<and> set [v] \<inter> set visited = {} \<and> last [v] = t \<and> length [v] \<le> Suc k"
          using nv True by simp
        then show "p \<in> ?H" by blast
      qed
      then show ?thesis using nv True by simp
    next
      case vt: False
      show ?thesis
      proof (cases k)
        case 0
        have "?H = {}"
        proof -
          have "False" if "q \<noteq> []" "hd q = v" "last q = t" "length q \<le> Suc k" for q
          proof -
            from that obtain q' where "q = v # q'" by (cases q) auto
            then show False using that vt 0 by (cases q') auto
          qed
          then show ?thesis by blast
        qed
        then show ?thesis using nv vt 0 by simp
      next
        case (Suc k')
        have IH: "set (simple_paths g t k' (visited @ [v]) (successors g v))
            = ?R k' (visited @ [v]) (successors g v)"
          using "2.IH"(1) [OF nv vt Suc] .
        have "?R k' (visited @ [v]) (successors g v) = ?H"
        proof (intro set_eqI iffI)
          fix p assume "p \<in> ?R k' (visited @ [v]) (successors g v)"
          then obtain q where q: "p = (visited @ [v]) @ q" "q \<noteq> []" "hd q \<in> set (successors g v)"
            "successively (has_edge g) q" "distinct q" "set q \<inter> set (visited @ [v]) = {}"
            "last q = t" "length q \<le> Suc k'"
            by blast
          then obtain x q' where xq: "q = x # q'" by (cases q) auto
          have "p = visited @ (v # q) \<and> v # q \<noteq> [] \<and> hd (v # q) = v
            \<and> successively (has_edge g) (v # q) \<and> distinct (v # q)
            \<and> set (v # q) \<inter> set visited = {} \<and> last (v # q) = t \<and> length (v # q) \<le> Suc k"
            using q xq nv Suc by (auto simp: has_edge_def)
          then show "p \<in> ?H" by blast
        next
          fix p assume "p \<in> ?H"
          then obtain q where q: "p = visited @ q" "q \<noteq> []" "hd q = v"
            "successively (has_edge g) q" "distinct q" "set q \<inter> set visited = {}"
            "last q = t" "length q \<le> Suc k"
            by blast
          then obtain q' where q': "q = v # q'" by (cases q) auto
          have ne: "q' \<noteq> []" using q(7) q' vt by auto
          then obtain x q'' where xq: "q' = x # q''" by (cases q') auto
          have "p = (visited @ [v]) @ q' \<and> q' \<noteq> [] \<and> hd q' \<in> set (successors g v)
            \<and> successively (has_edge g) q' \<and> distinct q'
            \<and> set q' \<inter> set (visited @ [v]) = {} \<and> last q' = t \<and> length q' \<le> Suc k'"
            using q q' xq Suc by (auto simp: has_edge_def)
          then show "p \<in> ?R k' (visited @ [v]) (successors g v)" by blast
        qed
        then show ?thesis using nv vt Suc IH by simp
      qed
    qed
  qed
  have "set (simple_paths g t k visited (v # vs)) = set ?first \<union> set (simple_paths g t k visited vs)"
    by simp
  then show ?case
    unfolding first "2.IH"(2) split by simp
qed

lemma simple_paths_distinct:
  "\<forall>u. distinct (successors g u) \<Longrightarrow> distinct vs
   \<Longrightarrow> distinct (simple_paths g t k visited vs)"
proof (induction g t k visited vs rule: simple_paths.induct)
  case (1 g t k visited)
  then show ?case by simp
next
  case (2 g t k visited v vs)
  let ?first = "if v \<in> set visited then []
      else if v = t then [visited @ [v]]
      else case k of 0 \<Rightarrow> [] | Suc k' \<Rightarrow> simple_paths g t k' (visited @ [v]) (successors g v)"
  have d1: "distinct ?first"
    using "2.IH"(1) "2.prems" by (auto split: nat.splits)
  have d2: "distinct (simple_paths g t k visited vs)"
    using "2.IH"(2) "2.prems" by simp
  have h1: "\<exists>q. p = visited @ v # q" if "p \<in> set ?first" for p
  proof -
    have "p = visited @ [v] \<or> (\<exists>k'. p \<in> set (simple_paths g t k' (visited @ [v]) (successors g v)))"
      using that by (auto split: if_splits nat.splits)
    then show ?thesis
    proof
      assume "p = visited @ [v]" then show ?thesis by simp
    next
      assume "\<exists>k'. p \<in> set (simple_paths g t k' (visited @ [v]) (successors g v))"
      then obtain k' q where "p = (visited @ [v]) @ q"
        unfolding simple_paths_set by blast
      then show ?thesis by simp
    qed
  qed
  have h2: "\<exists>x q. p = visited @ x # q \<and> x \<in> set vs" if "p \<in> set (simple_paths g t k visited vs)" for p
  proof -
    from that obtain q where q: "p = visited @ q" "q \<noteq> []" "hd q \<in> set vs"
      unfolding simple_paths_set by blast
    then obtain x q' where "q = x # q'" by (cases q) auto
    then show ?thesis using q by auto
  qed
  have "set ?first \<inter> set (simple_paths g t k visited vs) = {}"
  proof (rule ccontr)
    assume "set ?first \<inter> set (simple_paths g t k visited vs) \<noteq> {}"
    then obtain p where p: "p \<in> set ?first" "p \<in> set (simple_paths g t k visited vs)" by blast
    from h1 [OF p(1)] h2 [OF p(2)] have "v \<in> set vs" by auto
    then show False using "2.prems"(2) by simp
  qed
  then show ?case using d1 d2 by simp
qed

lemma simple_path_loop:
  "simple_path g t t p \<longleftrightarrow> p = [t]"
proof
  assume a: "simple_path g t t p"
  then obtain x xs where p: "p = x # xs" by (cases p) (auto simp: simple_path_def)
  show "p = [t]"
  proof (cases "xs = []")
    case True
    then show ?thesis using a p by (simp add: simple_path_def)
  next
    case False
    then have "last xs = t" "x = t" using a p by (auto simp: simple_path_def)
    then have "t \<in> set xs" using False last_in_set by blast
    then show ?thesis using a p \<open>x = t\<close> by (simp add: simple_path_def)
  qed
qed (simp add: simple_path_def)

lemma all_simple_paths_set:
  "set (all_simple_paths trivial g s t k) = {p. counted_path trivial g s t k p}"
proof (cases "s = t")
  case True
  have "{p. counted_path trivial g t t k p} = (if trivial then {[t]} else {})"
    by (auto simp: counted_path_def simple_path_loop)
  then show ?thesis using True
    by (simp add: all_simple_paths_def)
next
  case False
  show ?thesis
  proof (cases k)
    case 0
    have "\<not> counted_path trivial g s t 0 p" for p
    proof
      assume "counted_path trivial g s t 0 p"
      then have c: "p \<noteq> []" "hd p = s" "last p = t" "length p - 1 \<le> 0"
        by (simp_all add: counted_path_def simple_path_def)
      then obtain x where "p = [x]" by (cases p) auto
      then show False using c False by simp
    qed
    then show ?thesis using False 0 by (simp add: all_simple_paths_def)
  next
    case (Suc k')
    have "{[s] @ q | q. q \<noteq> [] \<and> hd q \<in> set (successors g s) \<and> successively (has_edge g) q
          \<and> distinct q \<and> set q \<inter> set [s] = {} \<and> last q = t \<and> length q \<le> Suc k'}
        = {p. counted_path trivial g s t k p}"
      (is "?A = ?B")
    proof (intro set_eqI iffI)
      fix p assume "p \<in> ?A"
      then obtain q where q: "p = s # q" "q \<noteq> []" "hd q \<in> set (successors g s)"
        "successively (has_edge g) q" "distinct q"
        "s \<notin> set q" "last q = t" "length q \<le> Suc k'" by auto
      then obtain x q' where xq: "q = x # q'" by (cases q) auto
      have "simple_path g s t p"
        using q xq by (simp add: simple_path_def has_edge_def)
      moreover have "length p - 1 \<le> k" "1 < length p"
        using q xq Suc by simp_all
      ultimately show "p \<in> ?B" by (simp add: counted_path_def)
    next
      fix p assume "p \<in> ?B"
      then have c: "p \<noteq> []" "hd p = s" "last p = t" "distinct p" "successively (has_edge g) p"
        "length p - 1 \<le> k" by (simp_all add: counted_path_def simple_path_def)
      then obtain q where p: "p = s # q" by (cases p) auto
      have ne: "q \<noteq> []" using c(3) p False by auto
      then obtain x q' where xq: "q = x # q'" by (cases q) auto
      have "hd q \<in> set (successors g s)" "successively (has_edge g) q" "distinct q" "s \<notin> set q"
        "last q = t" "length q \<le> Suc k'"
        using c p xq Suc by (simp_all add: has_edge_def)
      then have "p = [s] @ q \<and> q \<noteq> [] \<and> hd q \<in> set (successors g s)
          \<and> successively (has_edge g) q \<and> distinct q
          \<and> set q \<inter> set [s] = {} \<and> last q = t \<and> length q \<le> Suc k'"
        using p ne by simp
      then show "p \<in> ?A" by blast
    qed
    then show ?thesis using False Suc
      by (simp add: all_simple_paths_def simple_paths_set)
  qed
qed

lemma all_simple_paths_distinct:
  assumes "wf_digraph g"
  shows "distinct (all_simple_paths trivial g s t k)"
proof -
  have "distinct (simple_paths g t k' [s] (successors g s))" for k'
    using assms by (intro simple_paths_distinct) (simp_all add: wf_digraph_def)
  then show ?thesis
    by (simp add: all_simple_paths_def split: nat.splits)
qed

lemma neighbours_add_node [simp]: "neighbours (add_node n g) u = neighbours g u"
proof (cases "u \<in> set (nodes g)")
  case True
  then have "map_of (g @ [(n, [])]) u = map_of g u"
    by (auto simp: nodes_def map_add_def map_of_eq_None_iff split: option.splits)
  then show ?thesis by (simp add: add_node_def neighbours_def)
next
  case False
  then have "map_of g u = None" by (simp add: nodes_def map_of_eq_None_iff)
  then show ?thesis by (auto simp: add_node_def neighbours_def map_add_def split: option.splits)
qed

lemma nodes_add_node [simp]: "set (nodes (add_node n g)) = insert n (set (nodes g))"
  by (auto simp: add_node_def nodes_def)

lemma distinct_add_node: "distinct (nodes g) \<Longrightarrow> distinct (nodes (add_node n g))"
  by (auto simp: add_node_def nodes_def)

lemma neighbours_add_edge:
  "neighbours (add_edge u v upd g) x =
     (if x = u then AList.update v (upd (map_of (neighbours g u) v)) (neighbours g u)
      else neighbours g x)"
proof -
  let ?g = "add_node v (add_node u g)"
  have "neighbours (AList.update u nb ?g) x = (if x = u then nb else neighbours ?g x)" for nb
    by (simp add: neighbours_def update_conv')
  then show ?thesis by (simp add: add_edge_def Let_def)
qed

lemma nodes_add_edge [simp]:
  "set (nodes (add_edge u v upd g)) = insert u (insert v (set (nodes g)))"
proof -
  have "set (nodes (AList.update k x al)) = insert k (set (nodes al))" for k x and al :: "'a digraph"
    using dom_update [of k x al] by (simp add: nodes_def)
  then show ?thesis by (auto simp add: add_edge_def Let_def)
qed

lemma successors_add_edge:
  "successors (add_edge u v upd g) x =
     (if x = u \<and> v \<notin> set (successors g u) then successors g u @ [v] else successors g x)"
  by (simp add: successors_def neighbours_add_edge update_keys)


lemma has_edge_add_edge:
  "has_edge (add_edge u v upd g) x y \<longleftrightarrow> (x = u \<and> y = v) \<or> has_edge g x y"
  by (auto simp: has_edge_def successors_add_edge)

lemma wf_digraph_add_edge:
  assumes "wf_digraph g"
  shows "wf_digraph (add_edge u v upd g)"
proof -
  have "distinct (nodes (add_node v (add_node u g)))"
    using assms by (simp add: distinct_add_node wf_digraph_def)
  then have "distinct (nodes (add_edge u v upd g))"
    by (simp add: add_edge_def Let_def distinct_update nodes_def)
  moreover have "distinct (successors (add_edge u v upd g) x)" for x
    using assms by (simp add: successors_add_edge wf_digraph_def)
  moreover have "set (successors (add_edge u v upd g) x) \<subseteq> set (nodes (add_edge u v upd g))" for x
    using assms by (auto simp: successors_add_edge wf_digraph_def)
  ultimately show ?thesis by (simp add: wf_digraph_def)
qed

lemma wf_digraph_foldl_add_edge:
  "wf_digraph g \<Longrightarrow> wf_digraph (foldl (\<lambda>og (u, v, d). add_edge u v (f d) og) g es)"
  by (induction es arbitrary: g) (auto simp: wf_digraph_add_edge)

lemma wf_digraph_empty: "wf_digraph []"
  by (simp add: wf_digraph_def successors_def neighbours_def nodes_def)

lemma wf_ownership_graph: "wf_digraph (ownership_graph g)"
  unfolding ownership_graph_def
  by (rule wf_digraph_foldl_add_edge) (rule wf_digraph_empty)

lemma has_edge_data: "has_edge og u v \<Longrightarrow> \<exists>e. edge_data_of og u v = Some e"
  by (cases "edge_data_of og u v")
    (auto simp: has_edge_def successors_def edge_data_of_def map_of_eq_None_iff)

lemma path_percentage_foldl:
  "successively (has_edge og) p \<Longrightarrow>
   path_percentage ops og p acc =
     Inr (foldl (\<lambda>acc (u, v).
                   fl_mul ops acc
                     (fl_div100 ops
                        (to_float ops
                           (case edge_data_of og u v of None \<Rightarrow> Int_zero | Some e \<Rightarrow> e))))
                acc (zip p (tl p)))"
proof (induction ops og p acc rule: path_percentage.induct)
  case (1 ops og u v rest acc)
  then obtain e where e: "edge_data_of og u v = Some e"
    using has_edge_data by fastforce
  then show ?case using 1 by simp
qed simp_all

lemma path_percentage_spec:
  "successively (has_edge og) p \<Longrightarrow>
   path_percentage ops og p (fl_hundred ops) = Inr (spec_path_percentage ops og p)"
  by (simp add: path_percentage_foldl spec_path_percentage_def)

lemma sum_paths_spec:
  "\<forall>p\<in>set ps. successively (has_edge og) p \<Longrightarrow>
   sum_paths ops og ps acc =
     Inr (foldl (\<lambda>acc x. Float (fl_add ops (to_float ops acc) x)) acc
            (map (spec_path_percentage ops og) ps))"
  by (induction ps arbitrary: acc) (simp_all add: path_percentage_spec)

lemma indirect_percentage_sum_list:
  "indirect_percentage ops trivial og s t =
     Inr (float_sum ops (map (spec_path_percentage ops og) (all_simple_paths trivial og s t 3)))"
proof -
  have "\<forall>p\<in>set (all_simple_paths trivial og s t 3). successively (has_edge og) p"
    by (simp add: all_simple_paths_set counted_path_def simple_path_def)
  then show ?thesis
    by (simp add: indirect_percentage_def sum_paths_spec float_sum_def)
qed

lemma emit_all_Nil [simp]: "emit_all [] st = st"
  by (simp add: emit_all_def)

lemma emit_all_append: "emit_all (rs @ rs') st = emit_all rs' (emit_all rs st)"
  by (simp add: emit_all_def)

lemma emit_all_fields [simp]:
  "relationships (emit_all rs st) = relationships st @ rs"
  "entities (emit_all rs st) = entities st"
  "owners (emit_all rs st) = owners st"
  by (induction rs arbitrary: st)
    (simp_all add: emit_all_def append_relationship_def add_relationship_edge_def)

lemma process_pair_eq:
  "process_pair ops trivial og owner_id entity_id st =
     (case pair_error ops trivial og (entities st) (owner_id, entity_id) of
        Some e \<Rightarrow> Inl e
      | None \<Rightarrow> Inr (emit_all (pair_relationships ops trivial og (entities st) (owner_id, entity_id)) st))"
  by (simp add: process_pair_def pair_error_def pair_relationships_def Let_def emit_all_def
      split: sum.splits bool.splits option.splits)

lemma entity_loop_eq:
  "entity_loop ops trivial og owner_id es st =
     (emit_all (concat (map (pair_relationships ops trivial og (entities st))
                            (takeWhile (no_error ops trivial og (entities st)) (map (Pair owner_id) es)))) st,
      first_error ops trivial og (entities st) (map (Pair owner_id) es))"
proof (induction es arbitrary: st)
  case Nil
  then show ?case by (simp add: first_error_def)
next
  case (Cons e es)
  show ?case
  proof (cases "pair_error ops trivial og (entities st) (owner_id, e)")
    case None
    then show ?thesis
      by (simp add: process_pair_eq Cons.IH no_error_def first_error_def emit_all_append)
  next
    case (Some err)
    then show ?thesis
      by (simp add: process_pair_eq no_error_def first_error_def)
  qed
qed

lemma first_error_append:
  "first_error ops trivial og ents (xs @ ys) =
     (if \<forall>x\<in>set xs. no_error ops trivial og ents x then first_error ops trivial og ents ys
      else first_error ops trivial og ents xs)"
proof (cases "\<forall>x\<in>set xs. no_error ops trivial og ents x")
  case True
  then have "dropWhile (no_error ops trivial og ents) (xs @ ys) = dropWhile (no_error ops trivial og ents) ys"
    by (intro dropWhile_append2) simp
  then show ?thesis using True by (simp add: first_error_def)
next
  case False
  then obtain x where x: "x \<in> set xs" "\<not> no_error ops trivial og ents x" by blast
  then have d: "dropWhile (no_error ops trivial og ents) (xs @ ys)
      = dropWhile (no_error ops trivial og ents) xs @ ys"
    by (rule dropWhile_append1)
  have "dropWhile (no_error ops trivial og ents) xs \<noteq> []"
    using x by (auto simp: dropWhile_eq_Nil_conv)
  then obtain z zs where "dropWhile (no_error ops trivial og ents) xs = z # zs"
    by (cases "dropWhile (no_error ops trivial og ents) xs") auto
  then show ?thesis using False d by (auto simp add: first_error_def)
qed

lemma first_error_None:
  "first_error ops trivial og ents xs = None \<longleftrightarrow> (\<forall>x\<in>set xs. no_error ops trivial og ents x)"
  by (induction xs) (auto simp: first_error_def no_error_def)

lemma owner_loop_eq_aux:
  assumes "entities st = ents" and "map fst ents = es"
  shows "owner_loop ops trivial og os st =
     (emit_all (concat (map (pair_relationships ops trivial og ents)
                            (takeWhile (no_error ops trivial og ents) (List.product os es)))) st,
      first_error ops trivial og ents (List.product os es))"
  using assms(1)
proof (induction os arbitrary: st)
  case Nil
  then show ?case by (simp add: first_error_def)
next
  case (Cons ow os)
  let ?ok = "no_error ops trivial og ents"
  let ?f = "pair_relationships ops trivial og ents"
  let ?row = "map (Pair ow) es"
  have el: "entity_loop ops trivial og ow (map fst (entities st)) st =
      (emit_all (concat (map ?f (takeWhile ?ok ?row))) st, first_error ops trivial og ents ?row)"
    using Cons.prems assms(2) by (simp only: entity_loop_eq)
  show ?case
  proof (cases "first_error ops trivial og ents ?row")
    case None
    then have ok: "\<forall>x\<in>set ?row. ?ok x"
      by (simp only: first_error_None)
    then have tw: "takeWhile ?ok (?row @ List.product os es) = ?row @ takeWhile ?ok (List.product os es)"
      by (intro takeWhile_append2) auto
    have tw1: "takeWhile ?ok ?row = ?row"
      using ok by (simp only: takeWhile_eq_all_conv)
    have fe: "first_error ops trivial og ents (?row @ List.product os es)
        = first_error ops trivial og ents (List.product os es)"
      by (simp only: first_error_append ok [THEN eqTrueI] if_True)
    have ent: "entities (emit_all (concat (map ?f ?row)) st) = ents"
      using Cons.prems by simp
    have "owner_loop ops trivial og (ow # os) st
        = owner_loop ops trivial og os (emit_all (concat (map ?f ?row)) st)"
      by (simp only: owner_loop.simps el None tw1 prod.case option.case)
    also have "\<dots> = (emit_all (concat (map ?f (takeWhile ?ok (List.product os es))))
                        (emit_all (concat (map ?f ?row)) st),
                     first_error ops trivial og ents (List.product os es))"
      by (rule Cons.IH [OF ent])
    also have "\<dots> = (emit_all (concat (map ?f (takeWhile ?ok (List.product (ow # os) es)))) st,
                     first_error ops trivial og ents (List.product (ow # os) es))"
      by (simp only: List.product.simps tw fe map_append concat_append emit_all_append)
    finally show ?thesis .
  next
    case (Some err)
    then have "\<not> (\<forall>x\<in>set ?row. ?ok x)"
      using first_error_None [of ops trivial og ents ?row] by simp
    then obtain x where x: "x \<in> set ?row" "\<not> ?ok x" by blast
    then have tw: "takeWhile ?ok (?row @ List.product os es) = takeWhile ?ok ?row"
      by (rule takeWhile_append1)
    have fe: "first_error ops trivial og ents (?row @ List.product os es) = Some err"
      using Some x by (auto simp add: first_error_append)
    have "owner_loop ops trivial og (ow # os) st
        = (emit_all (concat (map ?f (takeWhile ?ok ?row))) st, Some err)"
      by (simp only: owner_loop.simps el Some prod.case option.case)
    also have "\<dots> = (emit_all (concat (map ?f (takeWhile ?ok (List.product (ow # os) es)))) st,
                     first_error ops trivial og ents (List.product (ow # os) es))"
      by (simp only: List.product.simps tw fe)
    finally show ?thesis .
  qed
qed

lemma calculate_indirect_ownership_eq:
  "calculate_indirect_ownership ops trivial st =
     (let og = ownership_graph (graph st);
          pairs = List.product (map fst (owners st)) (map fst (entities st))
      in (emit_all (concat (map (pair_relationships ops trivial og (entities st))
                                (takeWhile (no_error ops trivial og (entities st)) pairs))) st,
          first_error ops trivial og (entities st) pairs))"
  by (simp add: calculate_indirect_ownership_def owner_loop_eq_aux [OF refl refl] Let_def)

lemma indirect_emitted_eq:
  "indirect_emitted ops trivial st =
     concat (map (pair_relationships ops trivial (ownership_graph (graph st)) (entities st))
                 (takeWhile (no_error ops trivial (ownership_graph (graph st)) (entities st))
                    (List.product (map fst (owners st)) (map fst (entities st)))))"
  by (simp add: indirect_emitted_def calculate_indirect_ownership_eq Let_def)

lemma relationships_calculate:
  "relationships (fst (calculate_indirect_ownership ops trivial st)) =
     relationships st @ indirect_emitted ops trivial st"
  by (simp add: indirect_emitted_def calculate_indirect_ownership_eq Let_def)

lemma pair_relationships_cases:
  assumes "r \<in> set (pair_relationships ops trivial og ents (owner_id, entity_id))"
  shows "\<not> has_edge og owner_id entity_id \<and> has_path og owner_id entity_id = Inr True
     \<and> indirect_percentage ops trivial og owner_id entity_id = Inr (percentage r)
     \<and> greater_one ops (percentage r)
     \<and> (\<exists>en. map_of ents entity_id = Some en
           \<and> r = indirect_relationship ops owner_id entity_id (percentage r) (en_name en))"
proof -
  let ?rs = "pair_relationships ops trivial og ents (owner_id, entity_id)"
  have ne: "?rs \<noteq> []" using assms by auto
  have a: "\<not> has_edge og owner_id entity_id"
  proof
    assume "has_edge og owner_id entity_id"
    then have "?rs = []" by (simp add: pair_relationships_def)
    then show False using ne by simp
  qed
  have b: "has_path og owner_id entity_id = Inr True"
  proof (rule ccontr)
    assume "has_path og owner_id entity_id \<noteq> Inr True"
    then have "?rs = []" by (simp add: pair_relationships_def)
    then show False using ne by simp
  qed
  obtain pct where pct: "indirect_percentage ops trivial og owner_id entity_id = Inr pct"
  proof (cases "indirect_percentage ops trivial og owner_id entity_id")
    case (Inl e)
    then have "?rs = []" by (simp add: pair_relationships_def)
    then show ?thesis using ne by simp
  next
    case (Inr p)
    then show ?thesis using that by simp
  qed
  have c: "greater_one ops pct"
  proof (rule ccontr)
    assume "\<not> greater_one ops pct"
    then have "?rs = []" using pct by (simp add: pair_relationships_def)
    then show False using ne by simp
  qed
  obtain en where en: "map_of ents entity_id = Some en"
  proof (cases "map_of ents entity_id")
    case None
    then have "?rs = []" using pct by (simp add: pair_relationships_def)
    then show ?thesis using ne by simp
  next
    case (Some x)
    then show ?thesis using that by simp
  qed
  have "?rs = [indirect_relationship ops owner_id entity_id pct (en_name en)]"
    using a b pct c en by (simp add: pair_relationships_def)
  then have r: "r = indirect_relationship ops owner_id entity_id pct (en_name en)"
    using assms by simp
  then have "percentage r = pct"
    by (simp add: indirect_relationship_def)
  then show ?thesis using a b pct c en r by simp
qed

lemma indirect_emitted_cases:
  assumes "r \<in> set (indirect_emitted ops trivial st)"
  shows "source_id r \<in> set (map fst (owners st)) \<and> target_id r \<in> set (map fst (entities st))
     \<and> r \<in> set (pair_relationships ops trivial (ownership_graph (graph st)) (entities st)
                 (source_id r, target_id r))"
proof -
  let ?og = "ownership_graph (graph st)"
  let ?pairs = "List.product (map fst (owners st)) (map fst (entities st))"
  from assms obtain pr where pr: "pr \<in> set (takeWhile (no_error ops trivial ?og (entities st)) ?pairs)"
    "r \<in> set (pair_relationships ops trivial ?og (entities st) pr)"
    unfolding indirect_emitted_eq by auto
  obtain ow e where oe: "pr = (ow, e)" by (cases pr)
  have "pr \<in> set ?pairs"
    using pr(1) set_takeWhileD by fastforce
  then have mem: "ow \<in> set (map fst (owners st))" "e \<in> set (map fst (entities st))"
    using oe by auto
  have "source_id r = ow \<and> target_id r = e"
    using pair_relationships_cases [of r ops trivial ?og "entities st" ow e] pr(2) oe
    by (metis indirect_relationship_def relationship.select_convs(1,2))
  then show ?thesis using mem pr(2) oe by simp
qed

lemma indirect_between_subset:
  "set (indirect_between ops trivial st a e)
     \<subseteq> set (pair_relationships ops trivial (ownership_graph (graph st)) (entities st) (a, e))"
  using indirect_emitted_cases by (auto simp: indirect_between_def)

lemma indirect_between_Nil:
  "pair_relationships ops trivial (ownership_graph (graph st)) (entities st) (a, e) = []
   \<Longrightarrow> indirect_between ops trivial st a e = []"
  using indirect_between_subset [of ops trivial st a e] by simp

lemma pair_relationships_direct:
  "has_edge og a e \<Longrightarrow> pair_relationships ops trivial og ents (a, e) = []"
  by (simp add: pair_relationships_def)

lemma pair_relationships_small:
  "indirect_percentage ops trivial og a e = Inr p \<Longrightarrow> \<not> greater_one ops p
   \<Longrightarrow> pair_relationships ops trivial og ents (a, e) = []"
  by (simp add: pair_relationships_def)

lemma indirect_emitted_type:
  "r \<in> set (indirect_emitted ops trivial st) \<Longrightarrow> rel_type r = ''indirect_owns''"
  using indirect_emitted_cases [of r ops trivial st]
    pair_relationships_cases [of r ops trivial "ownership_graph (graph st)" "entities st"
      "source_id r" "target_id r"]
  by (metis indirect_relationship_def relationship.select_convs(3))

text \<open>
  C3. Every relationship the pass emits has the type \<open>indirect_owns\<close>, joins a pair with no
  direct edge in the ownership-only graph, and carries the pair's summed percentage, for which
  the float comparison \<open>> 1.0\<close> holds. So a pair with a direct edge gets no indirect
  relationship, and neither does a pair whose sum is not greater than \<open>1.0\<close>. The sum and the
  comparison are the extractor's: this holds whatever the float operations return.
\<close>

theorem indirect_only_without_direct_above_threshold:
  fixes st :: "'f extractor"
  defines "og \<equiv> ownership_graph (graph st)"
  shows "(\<forall>r\<in>set (indirect_emitted ops trivial st).
            rel_type r = ''indirect_owns''
          \<and> \<not> has_edge og (source_id r) (target_id r)
          \<and> indirect_percentage ops trivial og (source_id r) (target_id r) = Inr (percentage r)
          \<and> greater_one ops (percentage r))
       \<and> (has_edge og a e \<longrightarrow> indirect_between ops trivial st a e = [])
       \<and> (\<forall>p. indirect_percentage ops trivial og a e = Inr p \<and> \<not> greater_one ops p
              \<longrightarrow> indirect_between ops trivial st a e = [])"
proof (intro conjI ballI allI impI)
  fix r assume r: "r \<in> set (indirect_emitted ops trivial st)"
  note c = pair_relationships_cases [OF indirect_emitted_cases [OF r, THEN conjunct2, THEN conjunct2]]
  show "rel_type r = ''indirect_owns''" using r by (rule indirect_emitted_type)
  show "\<not> has_edge og (source_id r) (target_id r)" using c by (simp add: og_def)
  show "indirect_percentage ops trivial og (source_id r) (target_id r) = Inr (percentage r)"
    using c by (simp add: og_def)
  show "greater_one ops (percentage r)" using c by simp
next
  assume "has_edge og a e"
  then show "indirect_between ops trivial st a e = []"
    by (simp add: og_def indirect_between_Nil pair_relationships_direct)
next
  fix p assume "indirect_percentage ops trivial og a e = Inr p \<and> \<not> greater_one ops p"
  then show "indirect_between ops trivial st a e = []"
    by (simp add: og_def indirect_between_Nil pair_relationships_small)
qed

lemma all_simple_paths_counted:
  "p \<in> set (all_simple_paths trivial g s t k) \<Longrightarrow> simple_path g s t p \<and> length p - 1 \<le> k"
  using all_simple_paths_set [of trivial g s t k] by (auto simp: counted_path_def)

text \<open>
  C6. Every path that contributes to a pair's sum is a simple path of at most three edges
  from the owner to the entity. When every simple path from \<open>a\<close> to \<open>e\<close> has four edges or more,
  no indirect relationship is emitted for the pair.
\<close>

theorem paths_beyond_three_edges_ignored:
  fixes st :: "'f extractor"
  defines "og \<equiv> ownership_graph (graph st)"
  shows "(\<forall>p\<in>set (all_simple_paths trivial og a e 3). simple_path og a e p \<and> length p - 1 \<le> 3)
       \<and> ((\<forall>p. simple_path og a e p \<longrightarrow> 4 \<le> length p - 1)
            \<longrightarrow> indirect_between ops trivial st a e = [])"
proof (rule conjI, goal_cases)
  case 1
  show ?case using all_simple_paths_counted by blast
next
  case 2
  show ?case
  proof
  assume long: "\<forall>p. simple_path og a e p \<longrightarrow> 4 \<le> length p - 1"
  have "all_simple_paths trivial og a e 3 = []"
  proof (cases "all_simple_paths trivial og a e 3")
    case (Cons p ps)
    then have "simple_path og a e p \<and> length p - 1 \<le> 3"
      using all_simple_paths_counted [of p trivial og a e 3] by simp
    then show ?thesis using long by fastforce
  qed simp
  then have "indirect_percentage ops trivial og a e = Inr Int_zero"
    by (simp add: indirect_percentage_def)
  then have "pair_relationships ops trivial og (entities st) (a, e) = []"
    by (rule pair_relationships_small) (simp add: greater_one_def)
  then show "indirect_between ops trivial st a e = []"
    unfolding og_def by (rule indirect_between_Nil)
  qed
qed

text \<open>
  C7. The paths that are added up for a pair are the simple paths of at most three edges from
  the owner to the entity, each of them once. The pair's indirect percentage is the float sum,
  in the order in which the paths are enumerated and starting from \<open>0\<close>, of the percentages of
  these paths; every path counts in full, whatever edges it shares with another. Every emitted
  relationship carries this sum. This holds whatever the float operations return.
\<close>

theorem indirect_percentage_sums_paths:
  fixes st :: "'f extractor"
  defines "og \<equiv> ownership_graph (graph st)"
  shows "distinct (all_simple_paths trivial og a e 3)
       \<and> set (all_simple_paths trivial og a e 3) = {p. counted_path trivial og a e 3 p}
       \<and> indirect_percentage ops trivial og a e =
           Inr (float_sum ops
                  (map (spec_path_percentage ops og) (all_simple_paths trivial og a e 3)))
       \<and> (\<forall>r\<in>set (indirect_emitted ops trivial st).
            percentage r =
              float_sum ops
                (map (spec_path_percentage ops og)
                   (all_simple_paths trivial og (source_id r) (target_id r) 3)))"
proof (intro conjI ballI)
  show "distinct (all_simple_paths trivial og a e 3)"
    unfolding og_def by (rule all_simple_paths_distinct) (rule wf_ownership_graph)
  show "set (all_simple_paths trivial og a e 3) = {p. counted_path trivial og a e 3 p}"
    by (rule all_simple_paths_set)
  show "indirect_percentage ops trivial og a e =
           Inr (float_sum ops
                  (map (spec_path_percentage ops og) (all_simple_paths trivial og a e 3)))"
    by (rule indirect_percentage_sum_list)
next
  fix r assume r: "r \<in> set (indirect_emitted ops trivial st)"
  note c = pair_relationships_cases [OF indirect_emitted_cases [OF r, THEN conjunct2, THEN conjunct2]]
  then have "indirect_percentage ops trivial og (source_id r) (target_id r) = Inr (percentage r)"
    by (simp add: og_def)
  then show "percentage r =
      float_sum ops
        (map (spec_path_percentage ops og)
           (all_simple_paths trivial og (source_id r) (target_id r) 3))"
    by (simp add: indirect_percentage_sum_list)
qed

lemma has_edge_source_node: "has_edge g u v \<Longrightarrow> u \<in> set (nodes g)"
proof -
  assume "has_edge g u v"
  then have "map_of g u \<noteq> None"
    by (cases "map_of g u") (auto simp: has_edge_def successors_def neighbours_def)
  then show ?thesis
    by (simp add: nodes_def map_of_eq_None_iff)
qed

lemma has_edge_target_node: "wf_digraph g \<Longrightarrow> has_edge g u v \<Longrightarrow> v \<in> set (nodes g)"
  by (auto simp: wf_digraph_def has_edge_def)

lemma simple_path_nodes:
  assumes "wf_digraph g" "simple_path g s t p" "1 < length p"
  shows "set p \<subseteq> set (nodes g)"
proof -
  have "successively (has_edge g) q \<Longrightarrow> 1 < length q \<Longrightarrow> set q \<subseteq> set (nodes g)" for q
  proof (induction q rule: induct_list012)
    case (3 x y zs)
    then have xy: "has_edge g x y" "successively (has_edge g) (y # zs)" by simp_all
    show ?case
    proof (cases zs)
      case Nil
      then show ?thesis
        using xy has_edge_source_node has_edge_target_node [OF assms(1)] by auto
    next
      case (Cons z zs')
      then have "set (y # zs) \<subseteq> set (nodes g)" using 3 xy by simp
      then show ?thesis using xy has_edge_source_node by auto
    qed
  qed simp_all
  then show ?thesis using assms by (simp add: simple_path_def)
qed

lemma has_path_simple_path:
  assumes wf: "wf_digraph g" and p: "simple_path g s t p" and len: "1 < length p"
  shows "has_path g s t = Inr True"
proof -
  have sub: "set p \<subseteq> set (nodes g)" using simple_path_nodes [OF assms] .
  have ne: "p \<noteq> []" "hd p = s" "last p = t" "distinct p"
    using p by (simp_all add: simple_path_def)
  then have st: "s \<in> set p" "t \<in> set p" by auto
  have "length p = card (set p)" using ne(4) by (simp add: distinct_card)
  also have "\<dots> \<le> card (set (nodes g))" using sub by (simp add: card_mono)
  also have "\<dots> \<le> length g" using card_length [of "nodes g"] by (simp add: nodes_def)
  finally have "length p - 1 \<le> Suc (length g)" by simp
  then have "counted_path True g s t (Suc (length g)) p"
    using p by (simp add: counted_path_def)
  then have "p \<in> set (all_simple_paths True g s t (Suc (length g)))"
    by (simp add: all_simple_paths_set)
  then have "s = t \<or> simple_paths g t (length g) [s] (successors g s) \<noteq> []"
    by (auto simp: all_simple_paths_def split: if_splits)
  then show ?thesis using st sub by (auto simp: has_path_def)
qed

lemma filter_concat_map_key:
  assumes "distinct xs" and "\<And>x y. x \<in> set xs \<Longrightarrow> y \<in> set (f x) \<Longrightarrow> key y = x"
  shows "filter (\<lambda>y. key y = a) (concat (map f xs)) = (if a \<in> set xs then f a else [])"
  using assms
proof (induction xs)
  case Nil
  then show ?case by simp
next
  case (Cons x xs)
  have IH: "filter (\<lambda>y. key y = a) (concat (map f xs)) = (if a \<in> set xs then f a else [])"
    using Cons by auto
  have keys: "\<And>y. y \<in> set (f x) \<Longrightarrow> key y = x" using Cons.prems(2) by simp
  show ?case
  proof (cases "a = x")
    case True
    then have "a \<notin> set xs" using Cons.prems(1) by simp
    moreover have "filter (\<lambda>y. key y = a) (f x) = f x"
      using keys True by (simp add: filter_id_conv)
    ultimately show ?thesis using IH True by simp
  next
    case False
    then have "filter (\<lambda>y. key y = a) (f x) = []"
      using keys by (auto simp: filter_empty_conv)
    then show ?thesis using IH False by simp
  qed
qed

lemma indirect_between_no_error:
  assumes ok: "snd (calculate_indirect_ownership ops trivial st) = None"
    and d: "distinct (map fst (owners st))" "distinct (map fst (entities st))"
    and mem: "a \<in> set (map fst (owners st))" "e \<in> set (map fst (entities st))"
  shows "indirect_between ops trivial st a e =
           pair_relationships ops trivial (ownership_graph (graph st)) (entities st) (a, e)"
proof -
  let ?og = "ownership_graph (graph st)"
  let ?pairs = "List.product (map fst (owners st)) (map fst (entities st))"
  let ?f = "pair_relationships ops trivial ?og (entities st)"
  have "first_error ops trivial ?og (entities st) ?pairs = None"
    using ok by (simp add: calculate_indirect_ownership_eq Let_def)
  then have "\<forall>x\<in>set ?pairs. no_error ops trivial ?og (entities st) x"
    by (simp only: first_error_None)
  then have "takeWhile (no_error ops trivial ?og (entities st)) ?pairs = ?pairs"
    by (simp only: takeWhile_eq_all_conv)
  then have em: "indirect_emitted ops trivial st = concat (map ?f ?pairs)"
    by (simp only: indirect_emitted_eq)
  have key: "(source_id r, target_id r) = x" if "x \<in> set ?pairs" "r \<in> set (?f x)" for x r
  proof -
    obtain ow en where x: "x = (ow, en)" by (cases x)
    from pair_relationships_cases [of r ops trivial ?og "entities st" ow en] that(2) x
    show ?thesis by (metis indirect_relationship_def relationship.select_convs(1,2))
  qed
  have "filter (\<lambda>r. (source_id r, target_id r) = (a, e)) (concat (map ?f ?pairs))
      = (if (a, e) \<in> set ?pairs then ?f (a, e) else [])"
    using d key by (intro filter_concat_map_key distinct_product) auto
  then show ?thesis using mem em by (simp add: indirect_between_def)
qed

lemma all_simple_paths_singleton:
  assumes "wf_digraph g" and "{p. counted_path trivial g s t k p} = {q}"
  shows "all_simple_paths trivial g s t k = [q]"
proof -
  let ?ps = "all_simple_paths trivial g s t k"
  have d: "distinct ?ps" using assms(1) by (rule all_simple_paths_distinct)
  have s: "set ?ps = {q}" using assms(2) by (simp add: all_simple_paths_set)
  have "length ?ps = card (set ?ps)" using d by (simp add: distinct_card)
  then have "length ?ps = 1" using s by simp
  then obtain x where "?ps = [x]" by (cases ?ps) auto
  then show ?thesis using s by simp
qed

lemma chain_arithmetic:
  "double_mul (double_mul (Finite 100) (double_div100 (Finite 60))) (double_div100 (Finite 50))
     = Finite 30"
  "double_add (Finite 0) (Finite 30) = Finite 30"
  "double_format_2f (Finite 30) = ''30.00''"
  by code_simp+

text \<open>
  C1 (amended). When the pass raises no exception, the owner \<open>a\<close> and the entity \<open>c\<close> are keys of
  their collections, the ownership-only graph has the edges \<open>a \<rightarrow> b\<close> with 60 and \<open>b \<rightarrow> c\<close> with 50 and
  no edge \<open>a \<rightarrow> c\<close>, and \<open>a, b, c\<close> is the only simple path of at most three edges from \<open>a\<close> to
  \<open>c\<close>, then exactly one relationship from \<open>a\<close> to \<open>c\<close> is emitted: of type \<open>indirect_owns\<close>, with
  percentage 30 and the description \<open>Indirectly owns 30.00% of\<close> followed by the entity's name.
  The two collections are dictionaries, so no key occurs twice in them. The arithmetic is that
  of Python's floats.
\<close>

theorem chain_indirect_ownership:
  fixes st :: "double extractor"
  defines "og \<equiv> ownership_graph (graph st)"
  assumes no_error: "snd (calculate_indirect_ownership binary64 trivial st) = None"
    and keys: "distinct (map fst (owners st))" "distinct (map fst (entities st))"
    and owner: "a \<in> set (map fst (owners st))"
    and entity: "map_of (entities st) c = Some en"
    and ab: "edge_data_of og a b = Some (Float (Finite 60))"
    and bc: "edge_data_of og b c = Some (Float (Finite 50))"
    and ac: "\<not> has_edge og a c"
    and only: "{p. counted_path trivial og a c 3 p} = {[a, b, c]}"
  shows "indirect_between binary64 trivial st a c =
           [\<lparr>source_id = a, target_id = c, rel_type = ''indirect_owns'',
             percentage = Float (Finite 30),
             description = ''Indirectly owns 30.00% of '' @ en_name en\<rparr>]"
proof -
  have wf: "wf_digraph og" unfolding og_def by (rule wf_ownership_graph)
  have "counted_path trivial og a c 3 [a, b, c]" using only by blast
  then have sp: "simple_path og a c [a, b, c]" by (simp add: counted_path_def)
  have hp: "has_path og a c = Inr True"
    by (rule has_path_simple_path [OF wf sp]) simp
  have "all_simple_paths trivial og a c 3 = [[a, b, c]]"
    using wf only by (rule all_simple_paths_singleton)
  then have pct: "indirect_percentage binary64 trivial og a c = Inr (Float (Finite 30))"
    by (simp add: indirect_percentage_def ab bc to_float_def binary64_def chain_arithmetic)
  have gt: "greater_one binary64 (Float (Finite 30))"
    by (simp add: greater_one_def binary64_def)
  have e: "c \<in> set (map fst (entities st))"
    using entity by (metis map_of_eq_None_iff option.distinct(1) set_map)
  have "indirect_between binary64 trivial st a c =
      pair_relationships binary64 trivial og (entities st) (a, c)"
    unfolding og_def by (rule indirect_between_no_error [OF no_error keys owner e])
  also have "\<dots> = [indirect_relationship binary64 a c (Float (Finite 30)) (en_name en)]"
    using ac hp pct gt entity by (simp add: pair_relationships_def)
  finally show ?thesis
    by (simp add: indirect_relationship_def format_2f_def binary64_def chain_arithmetic
          del: double_format_2f.simps)
qed

theorem chain_indirect_ownership_witness:
  "snd (calculate_indirect_ownership binary64 True chain_state) = None
   \<and> distinct (map fst (owners chain_state)) \<and> distinct (map fst (entities chain_state))
   \<and> ''a'' \<in> set (map fst (owners chain_state))
   \<and> map_of (entities chain_state) ''c''
       = Some \<lparr>en_id = ''c'', en_name = ''C'', en_type = ''company'', en_media_type = None,
               en_image_url = []\<rparr>
   \<and> edge_data_of (ownership_graph (graph chain_state)) ''a'' ''b'' = Some (Float (Finite 60))
   \<and> edge_data_of (ownership_graph (graph chain_state)) ''b'' ''c'' = Some (Float (Finite 50))
   \<and> \<not> has_edge (ownership_graph (graph chain_state)) ''a'' ''c''
   \<and> {p. counted_path True (ownership_graph (graph chain_state)) ''a'' ''c'' 3 p}
       = {[''a'', ''b'', ''c'']}
   \<and> indirect_between binary64 True chain_state ''a'' ''c'' =
        [\<lparr>source_id = ''a'', target_id = ''c'', rel_type = ''indirect_owns'',
          percentage = Float (Finite 30), description = ''Indirectly owns 30.00% of C''\<rparr>]"
proof -
  let ?og = "ownership_graph (graph chain_state)"
  have h1: "snd (calculate_indirect_ownership binary64 True chain_state) = None" by code_simp
  have h2: "distinct (map fst (owners chain_state))" by code_simp
  have h3: "distinct (map fst (entities chain_state))" by code_simp
  have h4: "''a'' \<in> set (map fst (owners chain_state))" by code_simp
  have h5: "map_of (entities chain_state) ''c''
       = Some \<lparr>en_id = ''c'', en_name = ''C'', en_type = ''company'', en_media_type = None,
               en_image_url = []\<rparr>" by code_simp
  have h6: "edge_data_of ?og ''a'' ''b'' = Some (Float (Finite 60))" by code_simp
  have h7: "edge_data_of ?og ''b'' ''c'' = Some (Float (Finite 50))" by code_simp
  have h8: "\<not> has_edge ?og ''a'' ''c''" by code_simp
  have "all_simple_paths True ?og ''a'' ''c'' 3 = [[''a'', ''b'', ''c'']]" by code_simp
  then have h9: "{p. counted_path True ?og ''a'' ''c'' 3 p} = {[''a'', ''b'', ''c'']}"
    using all_simple_paths_set [of True ?og "''a''" "''c''" 3] by simp
  show ?thesis
    using chain_indirect_ownership [OF h1 h2 h3 h4 h5 h6 h7 h8 h9] h1 h2 h3 h4 h5 h6 h7 h8 h9 by simp
qed

text \<open>
  C1 as stated fails when a second path leads from the owner to the entity: with
  \<open>a \<rightarrow> b\<close> (60), \<open>b \<rightarrow> c\<close> (50), \<open>a \<rightarrow> d\<close> (40) and \<open>d \<rightarrow> c\<close> (50) the emitted percentage is 50.
\<close>

theorem chain_with_second_path_counterexample:
  "edge_data_of (ownership_graph (graph two_path_state)) ''a'' ''b'' = Some (Float (Finite 60))
   \<and> edge_data_of (ownership_graph (graph two_path_state)) ''b'' ''c'' = Some (Float (Finite 50))
   \<and> \<not> has_edge (ownership_graph (graph two_path_state)) ''a'' ''c''
   \<and> ''a'' \<in> set (map fst (owners two_path_state))
   \<and> ''c'' \<in> set (map fst (entities two_path_state))
   \<and> indirect_between binary64 True two_path_state ''a'' ''c'' =
        [\<lparr>source_id = ''a'', target_id = ''c'', rel_type = ''indirect_owns'',
          percentage = Float (Finite 50), description = ''Indirectly owns 50.00% of C''\<rparr>]"
  by code_simp

text \<open>
  C2. An owner with no ownership edge is not a node of the ownership-only graph, so
  \<open>has_path\<close> raises \<open>NodeNotFound\<close> for its first pair. The exception leaves both loops: with the
  owners \<open>x, a, b\<close> the pass ends at the pair \<open>(x, b)\<close> and emits nothing, although the later
  pair \<open>(a, c)\<close> raises nothing and, taken alone, gives a 30 percent relationship.
\<close>

theorem lookup_error_ends_batch:
  "snd (calculate_indirect_ownership binary64 True lone_owner_state) = Some NodeNotFound
   \<and> indirect_emitted binary64 True lone_owner_state = []
   \<and> map fst (owners lone_owner_state) = [''x'', ''a'', ''b'']
   \<and> map fst (entities lone_owner_state) = [''b'', ''c'']
   \<and> pair_error binary64 True (ownership_graph (graph lone_owner_state)) (entities lone_owner_state)
        (''x'', ''b'') = Some NodeNotFound
   \<and> pair_error binary64 True (ownership_graph (graph lone_owner_state)) (entities lone_owner_state)
        (''a'', ''c'') = None
   \<and> pair_relationships binary64 True (ownership_graph (graph lone_owner_state))
        (entities lone_owner_state) (''a'', ''c'') =
        [\<lparr>source_id = ''a'', target_id = ''c'', rel_type = ''indirect_owns'',
          percentage = Float (Finite 30), description = ''Indirectly owns 30.00% of C''\<rparr>]"
  by code_simp


theorem indirect_only_without_direct_above_threshold_witness:
  "\<lparr>source_id = ''a'', target_id = ''c'', rel_type = ''indirect_owns'',
     percentage = Float (Finite (1 + 1 / 2 ^ 52)),
     description = ''Indirectly owns 1.00% of C''\<rparr>
     \<in> set (indirect_emitted binary64 True threshold_state)
   \<and> \<not> has_edge (ownership_graph (graph threshold_state)) ''a'' ''c''
   \<and> indirect_percentage binary64 True (ownership_graph (graph threshold_state)) ''a'' ''c''
       = Inr (Float (Finite (1 + 1 / 2 ^ 52)))
   \<and> greater_one binary64 (Float (Finite (1 + 1 / 2 ^ 52)))
   \<and> has_edge (ownership_graph (graph threshold_state)) ''a'' ''b''
   \<and> indirect_between binary64 True threshold_state ''a'' ''b'' = []
   \<and> \<not> has_edge (ownership_graph (graph small_state)) ''a'' ''c''
   \<and> indirect_percentage binary64 True (ownership_graph (graph small_state)) ''a'' ''c''
       = Inr (Float (Finite (1 / 2)))
   \<and> \<not> greater_one binary64 (Float (Finite (1 / 2)))
   \<and> indirect_between binary64 True small_state ''a'' ''c'' = []
   \<and> indirect_between binary64 True special_state ''a'' ''c'' =
        [\<lparr>source_id = ''a'', target_id = ''c'', rel_type = ''indirect_owns'',
          percentage = Float Pos_inf, description = ''Indirectly owns inf% of C''\<rparr>]
   \<and> \<not> has_edge (ownership_graph (graph special_state)) ''x'' ''z''
   \<and> indirect_percentage binary64 True (ownership_graph (graph special_state)) ''x'' ''z''
       = Inr (Float NaN)
   \<and> \<not> greater_one binary64 (Float NaN)
   \<and> indirect_between binary64 True special_state ''x'' ''z'' = []"
proof -
  let ?r = "\<lparr>source_id = ''a'', target_id = ''c'', rel_type = ''indirect_owns'',
     percentage = Float (Finite (1 + 1 / 2 ^ 52)),
     description = ''Indirectly owns 1.00% of C''\<rparr>"
  have m: "?r \<in> set (indirect_emitted binary64 True threshold_state)" by code_simp
  have e: "has_edge (ownership_graph (graph threshold_state)) ''a'' ''b''" by code_simp
  have p: "indirect_percentage binary64 True (ownership_graph (graph small_state)) ''a'' ''c''
       = Inr (Float (Finite (1 / 2)))" by code_simp
  have n: "\<not> has_edge (ownership_graph (graph small_state)) ''a'' ''c''" by code_simp
  have g: "\<not> greater_one binary64 (Float (Finite (1 / 2)))"
    by (simp add: greater_one_def binary64_def)
  have i: "indirect_between binary64 True special_state ''a'' ''c'' =
        [\<lparr>source_id = ''a'', target_id = ''c'', rel_type = ''indirect_owns'',
          percentage = Float Pos_inf, description = ''Indirectly owns inf% of C''\<rparr>]"
    by code_simp
  have xn: "\<not> has_edge (ownership_graph (graph special_state)) ''x'' ''z''" by code_simp
  have xp: "indirect_percentage binary64 True (ownership_graph (graph special_state)) ''x'' ''z''
       = Inr (Float NaN)" by code_simp
  have xg: "\<not> greater_one binary64 (Float NaN)"
    by (simp add: greater_one_def binary64_def)
  have s: "indirect_between binary64 True small_state ''a'' ''c'' = []"
    using indirect_only_without_direct_above_threshold
      [of binary64 True small_state "''a''" "''c''"] p g by blast
  have x: "indirect_between binary64 True special_state ''x'' ''z'' = []"
    using indirect_only_without_direct_above_threshold
      [of binary64 True special_state "''x''" "''z''"] xp xg by blast
  have t: "\<not> has_edge (ownership_graph (graph threshold_state)) ''a'' ''c''
     \<and> indirect_percentage binary64 True (ownership_graph (graph threshold_state)) ''a'' ''c''
         = Inr (Float (Finite (1 + 1 / 2 ^ 52)))
     \<and> greater_one binary64 (Float (Finite (1 + 1 / 2 ^ 52)))
     \<and> indirect_between binary64 True threshold_state ''a'' ''b'' = []"
    using indirect_only_without_direct_above_threshold
      [of binary64 True threshold_state "''a''" "''b''"] m e
    by fastforce
  show ?thesis
    by (intro conjI) (use m e p n g i xn xp xg s x t in blast)+
qed

theorem paths_beyond_three_edges_ignored_witness:
  "\<not> (\<exists>p. simple_path (ownership_graph (graph long_chain_state)) ''a'' ''e'' p \<and> length p - 1 < 4)
   \<and> simple_path (ownership_graph (graph long_chain_state)) ''a'' ''e''
        [''a'', ''b'', ''c'', ''d'', ''e'']
   \<and> indirect_between binary64 True long_chain_state ''a'' ''e'' = []
   \<and> map percentage (indirect_between binary64 True long_chain_state ''a'' ''d'')
       = [Float (Finite 100)]"
proof -
  let ?og = "ownership_graph (graph long_chain_state)"
  have "all_simple_paths True ?og ''a'' ''e'' 3 = []" by code_simp
  then have none: "\<not> counted_path True ?og ''a'' ''e'' 3 p" for p
    using all_simple_paths_set [of True ?og "''a''" "''e''" 3] by auto
  have long: "\<forall>p. simple_path ?og ''a'' ''e'' p \<longrightarrow> 4 \<le> length p - 1"
  proof (intro allI impI)
    fix p assume "simple_path ?og ''a'' ''e'' p"
    then show "4 \<le> length p - 1" using none [of p] by (simp add: counted_path_def)
  qed
  have sp: "simple_path ?og ''a'' ''e'' [''a'', ''b'', ''c'', ''d'', ''e'']" by code_simp
  have d: "map percentage (indirect_between binary64 True long_chain_state ''a'' ''d'')
       = [Float (Finite 100)]"
    by code_simp
  have "indirect_between binary64 True long_chain_state ''a'' ''e'' = []"
    using paths_beyond_three_edges_ignored [of True long_chain_state "''a''" "''e''" binary64] long
    by blast
  moreover have "\<not> (\<exists>p. simple_path ?og ''a'' ''e'' p \<and> length p - 1 < 4)"
    using long by fastforce
  ultimately show ?thesis using sp d by simp
qed

theorem indirect_percentage_sums_paths_witness:
  "all_simple_paths True (ownership_graph (graph two_path_state)) ''a'' ''c'' 3
     = [[''a'', ''b'', ''c''], [''a'', ''d'', ''c'']]
   \<and> {p. counted_path True (ownership_graph (graph two_path_state)) ''a'' ''c'' 3 p}
     = {[''a'', ''b'', ''c''], [''a'', ''d'', ''c'']}
   \<and> spec_path_percentage binary64 (ownership_graph (graph two_path_state))
        [''a'', ''b'', ''c''] = Finite 30
   \<and> spec_path_percentage binary64 (ownership_graph (graph two_path_state))
        [''a'', ''d'', ''c''] = Finite 20
   \<and> float_sum binary64 [Finite 30, Finite 20] = Float (Finite 50)
   \<and> indirect_percentage binary64 True (ownership_graph (graph two_path_state)) ''a'' ''c''
       = Inr (Float (Finite 50))
   \<and> indirect_between binary64 True two_path_state ''a'' ''c'' =
        [\<lparr>source_id = ''a'', target_id = ''c'', rel_type = ''indirect_owns'',
          percentage = Float (Finite 50), description = ''Indirectly owns 50.00% of C''\<rparr>]
   \<and> spec_path_percentage binary64 (ownership_graph (graph threshold_state))
        [''a'', ''b'', ''c''] = Finite (1351079888211149 / 2 ^ 52)
   \<and> spec_path_percentage binary64 (ownership_graph (graph threshold_state))
        [''a'', ''d'', ''c''] = Finite (788129934789837 / 2 ^ 50)
   \<and> indirect_percentage binary64 True (ownership_graph (graph threshold_state)) ''a'' ''c''
       = Inr (Float (Finite (1 + 1 / 2 ^ 52)))"
proof -
  let ?og = "ownership_graph (graph two_path_state)"
  let ?tg = "ownership_graph (graph threshold_state)"
  have l: "all_simple_paths True ?og ''a'' ''c'' 3 = [[''a'', ''b'', ''c''], [''a'', ''d'', ''c'']]"
    by code_simp
  have p1: "spec_path_percentage binary64 ?og [''a'', ''b'', ''c''] = Finite 30" by code_simp
  have p2: "spec_path_percentage binary64 ?og [''a'', ''d'', ''c''] = Finite 20" by code_simp
  have f: "float_sum binary64 [Finite 30, Finite 20] = Float (Finite 50)" by code_simp
  have b: "indirect_between binary64 True two_path_state ''a'' ''c'' =
        [\<lparr>source_id = ''a'', target_id = ''c'', rel_type = ''indirect_owns'',
          percentage = Float (Finite 50), description = ''Indirectly owns 50.00% of C''\<rparr>]"
    by code_simp
  have t1: "spec_path_percentage binary64 ?tg [''a'', ''b'', ''c'']
      = Finite (1351079888211149 / 2 ^ 52)" by code_simp
  have t2: "spec_path_percentage binary64 ?tg [''a'', ''d'', ''c'']
      = Finite (788129934789837 / 2 ^ 50)" by code_simp
  have tl: "all_simple_paths True ?tg ''a'' ''c'' 3 = [[''a'', ''b'', ''c''], [''a'', ''d'', ''c'']]"
    by code_simp
  have tf: "float_sum binary64 [Finite (1351079888211149 / 2 ^ 52),
      Finite (788129934789837 / 2 ^ 50)] = Float (Finite (1 + 1 / 2 ^ 52))" by code_simp
  note c = indirect_percentage_sums_paths [of True two_path_state "''a''" "''c''" binary64]
  note ct = indirect_percentage_sums_paths [of True threshold_state "''a''" "''c''" binary64]
  have s: "{p. counted_path True ?og ''a'' ''c'' 3 p}
     = {[''a'', ''b'', ''c''], [''a'', ''d'', ''c'']}"
    using c l by auto
  have e: "indirect_percentage binary64 True ?og ''a'' ''c'' = Inr (Float (Finite 50))"
    using c l p1 p2 f by simp
  have et: "indirect_percentage binary64 True ?tg ''a'' ''c''
      = Inr (Float (Finite (1 + 1 / 2 ^ 52)))"
    using ct tl t1 t2 tf by simp
  show ?thesis using l s p1 p2 f e b t1 t2 et by simp
qed




lemma wf_digraph_add_node: "wf_digraph g \<Longrightarrow> wf_digraph (add_node n g)"
  by (auto simp: wf_digraph_def distinct_add_node successors_def)






lemma process_media_company_steps:
  "process_media_company float_str c owner_id st =
     (if \<not> t_link c then st
      else add_relationship_edge True (company_relationship float_str c owner_id)
             (append_relationship (company_relationship float_str c owner_id)
                (register_entity (company_entity c) st)))"
  by (simp add: process_media_company_def company_relationship_def company_entity_def Let_def)

lemma process_media_outlet_steps:
  "process_media_outlet float_str c owner_id st =
     (if \<not> t_link c then st
      else add_relationship_edge True (outlet_relationship float_str c owner_id)
             (append_relationship (outlet_relationship float_str c owner_id)
                (register_entity (outlet_entity c) st)))"
  by (simp add: process_media_outlet_def outlet_relationship_def outlet_entity_def Let_def)

lemma process_family_member_steps:
  "process_family_member t owner_id st =
     (if family_skipped t owner_id then st
      else add_relationship_edge False (family_relationship t owner_id)
             (append_relationship (family_relationship t owner_id) (family_registration t st)))"
  by (auto simp add: process_family_member_def family_skipped_def family_relationship_def
        family_registration_def registered_def Let_def)

lemma process_pair_steps:
  "process_pair ops trivial og owner_id entity_id st =
     (case pair_error ops trivial og (entities st) (owner_id, entity_id) of
        Some e \<Rightarrow> Inl e
      | None \<Rightarrow>
          Inr (case pair_relationships ops trivial og (entities st) (owner_id, entity_id) of
                 [] \<Rightarrow> st
               | r # _ \<Rightarrow> append_relationship r (add_relationship_edge True r st)))"
  by (simp add: process_pair_def pair_error_def pair_relationships_def Let_def
      split: sum.splits bool.splits option.splits)

lemma keys_update: "fst ` set (AList.update k v al) = insert k (fst ` set al)"
  using dom_update [of k v al] by simp

lemma register_owner_fields [simp]:
  "fst ` set (owners (register_owner ow st)) = insert (ow_id ow) (fst ` set (owners st))"
  "entities (register_owner ow st) = entities st"
  "relationships (register_owner ow st) = relationships st"
  "set (nodes (graph (register_owner ow st))) = insert (ow_id ow) (set (nodes (graph st)))"
  by (simp_all add: register_owner_def keys_update)

lemma register_entity_fields [simp]:
  "owners (register_entity en st) = owners st"
  "fst ` set (entities (register_entity en st)) = insert (en_id en) (fst ` set (entities st))"
  "relationships (register_entity en st) = relationships st"
  "set (nodes (graph (register_entity en st))) = insert (en_id en) (set (nodes (graph st)))"
  by (simp_all add: register_entity_def keys_update)

lemma append_relationship_fields [simp]:
  "owners (append_relationship r st) = owners st"
  "entities (append_relationship r st) = entities st"
  "relationships (append_relationship r st) = relationships st @ [r]"
  "graph (append_relationship r st) = graph st"
  by (simp_all add: append_relationship_def)

lemma add_relationship_edge_fields [simp]:
  "owners (add_relationship_edge w r st) = owners st"
  "entities (add_relationship_edge w r st) = entities st"
  "relationships (add_relationship_edge w r st) = relationships st"
  "set (nodes (graph (add_relationship_edge w r st)))
     = insert (source_id r) (insert (target_id r) (set (nodes (graph st))))"
  by (simp_all add: add_relationship_edge_def graph_add_edge_def)

lemma endpoints_registered_mono:
  assumes "endpoints_registered r st"
    and "set (map fst (owners st)) \<subseteq> set (map fst (owners st'))"
    and "set (map fst (entities st)) \<subseteq> set (map fst (entities st'))"
    and "set (nodes (graph st)) \<subseteq> set (nodes (graph st'))"
  shows "endpoints_registered r st'"
  using assms unfolding endpoints_registered_def registered_def by blast

lemma all_endpoints_registered_mono:
  assumes "all_endpoints_registered st"
    and "relationships st' = relationships st"
    and "set (map fst (owners st)) \<subseteq> set (map fst (owners st'))"
    and "set (map fst (entities st)) \<subseteq> set (map fst (entities st'))"
    and "set (nodes (graph st)) \<subseteq> set (nodes (graph st'))"
  shows "all_endpoints_registered st'"
  using assms endpoints_registered_mono [of _ st st']
  unfolding all_endpoints_registered_def list_all_iff by metis

lemma all_endpoints_registered_append:
  assumes "all_endpoints_registered st" and "endpoints_registered r st"
  shows "all_endpoints_registered (append_relationship r st)"
proof -
  have "endpoints_registered x st \<Longrightarrow> endpoints_registered x (append_relationship r st)" for x
    by (simp add: endpoints_registered_def registered_def)
  then show ?thesis
    using assms by (simp add: all_endpoints_registered_def list_all_iff)
qed

lemma company_endpoints:
  assumes "registry_in_graph st" and "owner_id \<in> set (map fst (owners st))"
  shows "endpoints_registered (company_relationship float_str c owner_id)
           (register_entity (company_entity c) st)"
  using assms
  by (auto simp add: endpoints_registered_def registered_def company_relationship_def
        registry_in_graph_def list_all_iff)

lemma outlet_endpoints:
  assumes "registry_in_graph st" and "owner_id \<in> set (map fst (owners st))"
  shows "endpoints_registered (outlet_relationship float_str c owner_id)
           (register_entity (outlet_entity c) st)"
  using assms
  by (auto simp add: endpoints_registered_def registered_def outlet_relationship_def
        registry_in_graph_def list_all_iff)

lemma family_endpoints:
  assumes "registry_in_graph st" and "owner_id \<in> set (map fst (owners st))"
  shows "endpoints_registered (family_relationship t owner_id) (family_registration t st)"
  using assms
  by (auto simp add: endpoints_registered_def registered_def family_relationship_def
        family_registration_def registry_in_graph_def list_all_iff)

lemma indirect_endpoints:
  assumes "owner_id \<in> set (map fst (owners st))"
  shows "list_all (\<lambda>r. endpoints_registered r (add_relationship_edge True r st))
           (pair_relationships ops trivial og (entities st) (owner_id, entity_id))"
proof -
  have "endpoints_registered r (add_relationship_edge True r st)"
    if "r \<in> set (pair_relationships ops trivial og (entities st) (owner_id, entity_id))" for r
  proof -
    from pair_relationships_cases [OF that] obtain en where
      en: "map_of (entities st) entity_id = Some en"
        "r = indirect_relationship ops owner_id entity_id (percentage r) (en_name en)"
      by blast
    have "entity_id \<in> set (map fst (entities st))"
      using en(1) by (metis map_of_eq_None_iff option.distinct(1) set_map)
    moreover have "source_id r = owner_id" "target_id r = entity_id"
      using en(2) by (metis indirect_relationship_def relationship.select_convs(1))
        (metis en(2) indirect_relationship_def relationship.select_convs(2))
    ultimately show ?thesis
      using assms by (simp add: endpoints_registered_def registered_def)
  qed
  then show ?thesis by (simp add: list_all_iff)
qed

lemma registry_in_graph_iff:
  "registry_in_graph st \<longleftrightarrow>
     fst ` set (owners st) \<union> fst ` set (entities st) \<subseteq> set (nodes (graph st))"
  by (auto simp: registry_in_graph_def list_all_iff)

lemma foldl_invariant:
  assumes "P s" and "\<And>s x. P s \<Longrightarrow> P (f s x)"
  shows "P (foldl f s xs)"
  using assms by (induction xs arbitrary: s) simp_all

lemma extractor_invariant_init: "extractor_invariant init"
  by (simp add: extractor_invariant_def registry_in_graph_def all_endpoints_registered_def
        init_def)

lemma extractor_invariant_register_entity:
  assumes "extractor_invariant st"
  shows "extractor_invariant (register_entity en st)"
proof -
  have "all_endpoints_registered (register_entity en st)"
    by (rule all_endpoints_registered_mono [of st])
       (use assms in \<open>auto simp: extractor_invariant_def\<close>)
  then show ?thesis
    using assms by (auto simp: extractor_invariant_def registry_in_graph_iff)
qed

lemma extractor_invariant_register_owner:
  assumes "extractor_invariant st"
  shows "extractor_invariant (register_owner ow st)"
proof -
  have "all_endpoints_registered (register_owner ow st)"
    by (rule all_endpoints_registered_mono [of st])
       (use assms in \<open>auto simp: extractor_invariant_def\<close>)
  then show ?thesis
    using assms by (auto simp: extractor_invariant_def registry_in_graph_iff)
qed

lemma extractor_invariant_append_then_edge:
  assumes "extractor_invariant st" and "endpoints_registered r st"
  shows "extractor_invariant (add_relationship_edge w r (append_relationship r st))"
proof -
  have a: "all_endpoints_registered (append_relationship r st)"
    using assms by (simp add: all_endpoints_registered_append extractor_invariant_def)
  have "all_endpoints_registered (add_relationship_edge w r (append_relationship r st))"
    by (rule all_endpoints_registered_mono [OF a]) auto
  then show ?thesis
    using assms by (auto simp: extractor_invariant_def registry_in_graph_iff)
qed

lemma extractor_invariant_edge_then_append:
  assumes "extractor_invariant st" and "endpoints_registered r (add_relationship_edge w r st)"
  shows "extractor_invariant (append_relationship r (add_relationship_edge w r st))"
proof -
  have "all_endpoints_registered (add_relationship_edge w r st)"
    by (rule all_endpoints_registered_mono [of st])
       (use assms in \<open>auto simp: extractor_invariant_def\<close>)
  then have "all_endpoints_registered (append_relationship r (add_relationship_edge w r st))"
    using assms(2) by (rule all_endpoints_registered_append)
  then show ?thesis
    using assms by (auto simp: extractor_invariant_def registry_in_graph_iff)
qed

lemma owners_process_media_company:
  "owners (process_media_company float_str c owner_id st) = owners st"
  by (simp add: process_media_company_steps)

lemma owners_process_media_outlet:
  "owners (process_media_outlet float_str c owner_id st) = owners st"
  by (simp add: process_media_outlet_steps)

lemma owners_process_family_member:
  "fst ` set (owners st) \<subseteq> fst ` set (owners (process_family_member t owner_id st))"
  by (auto simp add: process_family_member_steps family_registration_def)

lemma extractor_invariant_company:
  assumes "extractor_invariant st" and "owner_id \<in> fst ` set (owners st)"
  shows "extractor_invariant (process_media_company float_str c owner_id st)"
proof (cases "t_link c")
  case True
  have "endpoints_registered (company_relationship float_str c owner_id)
          (register_entity (company_entity c) st)"
    using assms by (intro company_endpoints) (simp_all add: extractor_invariant_def)
  then show ?thesis
    using True assms(1)
    by (simp add: process_media_company_steps extractor_invariant_append_then_edge
          extractor_invariant_register_entity)
next
  case False
  then show ?thesis using assms by (simp add: process_media_company_steps)
qed

lemma extractor_invariant_outlet:
  assumes "extractor_invariant st" and "owner_id \<in> fst ` set (owners st)"
  shows "extractor_invariant (process_media_outlet float_str c owner_id st)"
proof (cases "t_link c")
  case True
  have "endpoints_registered (outlet_relationship float_str c owner_id)
          (register_entity (outlet_entity c) st)"
    using assms by (intro outlet_endpoints) (simp_all add: extractor_invariant_def)
  then show ?thesis
    using True assms(1)
    by (simp add: process_media_outlet_steps extractor_invariant_append_then_edge
          extractor_invariant_register_entity)
next
  case False
  then show ?thesis using assms by (simp add: process_media_outlet_steps)
qed

lemma extractor_invariant_family_registration:
  "extractor_invariant st \<Longrightarrow> extractor_invariant (family_registration t st)"
  by (simp add: family_registration_def extractor_invariant_register_owner)

lemma extractor_invariant_family:
  assumes "extractor_invariant st" and "owner_id \<in> fst ` set (owners st)"
  shows "extractor_invariant (process_family_member t owner_id st)"
proof (cases "family_skipped t owner_id")
  case False
  have "endpoints_registered (family_relationship t owner_id) (family_registration t st)"
    using assms by (intro family_endpoints) (simp_all add: extractor_invariant_def)
  then show ?thesis
    using False assms(1)
    by (simp add: process_family_member_steps extractor_invariant_append_then_edge
          extractor_invariant_family_registration)
next
  case True
  then show ?thesis using assms by (simp add: process_family_member_steps)
qed

lemma extractor_invariant_html_file:
  assumes "extractor_invariant st"
  shows "extractor_invariant (process_html_file float_str pg st)"
proof -
  let ?o = "sanitize_id (pg_owner_name pg)"
  let ?P = "\<lambda>s. extractor_invariant s \<and> ?o \<in> fst ` set (owners s)"
  let ?st1 = "register_owner
                \<lparr>ow_id = ?o, ow_name = pg_owner_name pg,
                 ow_description = pg_owner_description pg,
                 ow_image_url = pg_owner_image pg, ow_type = ''owner''\<rparr> st"
  let ?st2 = "foldl (\<lambda>s c. process_media_company float_str c ?o s) ?st1 (pg_companies pg)"
  let ?st3 = "foldl (\<lambda>s c. process_media_outlet float_str c ?o s) ?st2 (pg_outlets pg)"
  let ?st4 = "foldl (\<lambda>s t. process_family_member t ?o s) ?st3 (pg_family pg)"
  have 1: "?P ?st1" using assms by (simp add: extractor_invariant_register_owner)
  have 2: "?P ?st2"
    by (rule foldl_invariant [where P = ?P, OF 1])
       (simp add: extractor_invariant_company owners_process_media_company)
  have 3: "?P ?st3"
    by (rule foldl_invariant [where P = ?P, OF 2])
       (simp add: extractor_invariant_outlet owners_process_media_outlet)
  have 4: "?P ?st4"
  proof (rule foldl_invariant [where P = ?P, OF 3])
    fix s t assume s: "?P s"
    then have "extractor_invariant (process_family_member t ?o s)"
      by (simp add: extractor_invariant_family)
    moreover have "?o \<in> fst ` set (owners (process_family_member t ?o s))"
      using s owners_process_family_member [of s t ?o] by blast
    ultimately show "?P (process_family_member t ?o s)" by simp
  qed
  then show ?thesis by (simp add: process_html_file_def Let_def)
qed

lemma extractor_invariant_process_files:
  "extractor_invariant (process_files float_str pages)"
  unfolding process_files_def
  by (rule foldl_invariant [where P = extractor_invariant, OF extractor_invariant_init])
     (rule extractor_invariant_html_file)

lemma extractor_invariant_emit_all:
  assumes "extractor_invariant st"
    and "\<And>r. r \<in> set rs \<Longrightarrow>
           source_id r \<in> fst ` set (owners st) \<and> target_id r \<in> fst ` set (entities st)"
  shows "extractor_invariant (emit_all rs st)"
  using assms
proof (induction rs arbitrary: st)
  case Nil
  then show ?case by (simp add: emit_all_def)
next
  case (Cons r rs)
  let ?st = "append_relationship r (add_relationship_edge True r st)"
  have "endpoints_registered r (add_relationship_edge True r st)"
    using Cons.prems(2) [of r] by (simp add: endpoints_registered_def registered_def)
  then have "extractor_invariant ?st"
    using Cons.prems(1) by (rule extractor_invariant_edge_then_append [rotated])
  moreover have "\<And>x. x \<in> set rs \<Longrightarrow>
      source_id x \<in> fst ` set (owners ?st) \<and> target_id x \<in> fst ` set (entities ?st)"
    using Cons.prems(2) by simp
  ultimately have "extractor_invariant (emit_all rs ?st)" by (rule Cons.IH)
  then show ?case by (simp add: emit_all_def)
qed

lemma extractor_invariant_calculate:
  assumes "extractor_invariant st"
  shows "extractor_invariant (fst (calculate_indirect_ownership ops trivial st))"
proof -
  let ?og = "ownership_graph (graph st)"
  let ?rs = "concat (map (pair_relationships ops trivial ?og (entities st))
               (takeWhile (no_error ops trivial ?og (entities st))
                  (List.product (map fst (owners st)) (map fst (entities st)))))"
  have "source_id r \<in> fst ` set (owners st) \<and> target_id r \<in> fst ` set (entities st)"
    if "r \<in> set ?rs" for r
    using indirect_emitted_cases [of r ops trivial st] that
    unfolding indirect_emitted_eq by simp
  then have "extractor_invariant (emit_all ?rs st)"
    using assms by (intro extractor_invariant_emit_all) 
  then show ?thesis by (simp add: calculate_indirect_ownership_eq Let_def)
qed

text \<open>
  C8. Let the keys of the two collections be nodes of the graph and let \<open>owner_id\<close> be a key
  of the owners collection, as \<open>process_html_file\<close> ensures before it calls the three functions.
  Each function that appends a relationship is the composition of its registration step, the
  append and the \<open>add_edge\<close> (for the indirect relationships: the \<open>add_edge\<close>, then the append),
  and in the state to which the relationship is appended its source and its target are keys
  of the owners or of the entities collection and nodes of the graph. The functions preserve
  the inclusion of the keys in the nodes, and after the files are processed, and again after
  the indirect-ownership pass, every relationship of the list has registered endpoints.
\<close>

theorem endpoints_registered_at_append:
  assumes "registry_in_graph st" and "owner_id \<in> set (map fst (owners st))"
  shows
    "process_media_company float_str c owner_id st =
       (if \<not> t_link c then st
        else add_relationship_edge True (company_relationship float_str c owner_id)
               (append_relationship (company_relationship float_str c owner_id)
                  (register_entity (company_entity c) st)))
     \<and> endpoints_registered (company_relationship float_str c owner_id)
          (register_entity (company_entity c) st)
     \<and> process_media_outlet float_str c owner_id st =
       (if \<not> t_link c then st
        else add_relationship_edge True (outlet_relationship float_str c owner_id)
               (append_relationship (outlet_relationship float_str c owner_id)
                  (register_entity (outlet_entity c) st)))
     \<and> endpoints_registered (outlet_relationship float_str c owner_id)
          (register_entity (outlet_entity c) st)
     \<and> process_family_member t owner_id st =
       (if family_skipped t owner_id then st
        else add_relationship_edge False (family_relationship t owner_id)
               (append_relationship (family_relationship t owner_id) (family_registration t st)))
     \<and> endpoints_registered (family_relationship t owner_id) (family_registration t st)
     \<and> process_pair ops trivial og owner_id entity_id st =
       (case pair_error ops trivial og (entities st) (owner_id, entity_id) of
          Some e \<Rightarrow> Inl e
        | None \<Rightarrow>
            Inr (case pair_relationships ops trivial og (entities st) (owner_id, entity_id) of
                   [] \<Rightarrow> st
                 | r # _ \<Rightarrow> append_relationship r (add_relationship_edge True r st)))
     \<and> list_all (\<lambda>r. endpoints_registered r (add_relationship_edge True r st))
          (pair_relationships ops trivial og (entities st) (owner_id, entity_id))
     \<and> registry_in_graph (process_media_company float_str c owner_id st)
     \<and> registry_in_graph (process_media_outlet float_str c owner_id st)
     \<and> registry_in_graph (process_family_member t owner_id st)
     \<and> extractor_invariant (process_files float_str pages)
     \<and> extractor_invariant (fst (calculate_indirect_ownership ops trivial (process_files float_str pages)))"
proof -
  have rc: "registry_in_graph (process_media_company float_str c owner_id st)"
    using assms(1) by (auto simp: process_media_company_steps registry_in_graph_iff)
  have ro: "registry_in_graph (process_media_outlet float_str c owner_id st)"
    using assms(1) by (auto simp: process_media_outlet_steps registry_in_graph_iff)
  have rf: "registry_in_graph (process_family_member t owner_id st)"
    using assms(1)
    by (auto simp: process_family_member_steps registry_in_graph_iff family_registration_def)
  have i1: "extractor_invariant (process_files float_str pages)"
    by (rule extractor_invariant_process_files)
  have i2: "extractor_invariant
      (fst (calculate_indirect_ownership ops trivial (process_files float_str pages)))"
    using i1 by (rule extractor_invariant_calculate)
  show ?thesis
    using company_endpoints [OF assms] outlet_endpoints [OF assms] family_endpoints [OF assms]
      indirect_endpoints [OF assms(2)] rc ro rf i1 i2
    by (simp only: process_media_company_steps [symmetric] process_media_outlet_steps [symmetric]
          process_family_member_steps [symmetric] process_pair_steps [symmetric] simp_thms)
qed

theorem endpoints_registered_at_append_witness:
  "registry_in_graph chain_state \<and> ''a'' \<in> set (map fst (owners chain_state))
   \<and> endpoints_registered (company_relationship example_float_str (company ''D'' (Finite 40)) ''a'')
        (register_entity (company_entity (company ''D'' (Finite 40))) chain_state)
   \<and> endpoints_registered (family_relationship (''Bee'', ''wife of A'') ''a'')
        (family_registration (''Bee'', ''wife of A'') chain_state)
   \<and> pair_relationships binary64 True (ownership_graph (graph chain_state)) (entities chain_state)
        (''a'', ''c'')
      = [\<lparr>source_id = ''a'', target_id = ''c'', rel_type = ''indirect_owns'', percentage = Float (Finite 30),
          description = ''Indirectly owns 30.00% of C''\<rparr>]
   \<and> endpoints_registered
        \<lparr>source_id = ''a'', target_id = ''c'', rel_type = ''indirect_owns'', percentage = Float (Finite 30),
         description = ''Indirectly owns 30.00% of C''\<rparr>
        (add_relationship_edge True
           \<lparr>source_id = ''a'', target_id = ''c'', rel_type = ''indirect_owns'', percentage = Float (Finite 30),
            description = ''Indirectly owns 30.00% of C''\<rparr> chain_state)
   \<and> extractor_invariant (fst (calculate_indirect_ownership binary64 True chain_state))"
proof -
  have h1: "registry_in_graph chain_state" by code_simp
  have h2: "''a'' \<in> set (map fst (owners chain_state))" by code_simp
  have pr: "pair_relationships binary64 True (ownership_graph (graph chain_state)) (entities chain_state)
        (''a'', ''c'')
      = [\<lparr>source_id = ''a'', target_id = ''c'', rel_type = ''indirect_owns'', percentage = Float (Finite 30),
          description = ''Indirectly owns 30.00% of C''\<rparr>]"
    by code_simp
  note t = endpoints_registered_at_append [OF h1 h2, of example_float_str "company ''D'' (Finite 40)" "(''Bee'', ''wife of A'')" binary64 True
      "ownership_graph (graph chain_state)" "''c''"
      "[owner_page ''A'' [company ''B'' (Finite 60)] [], owner_page ''B'' [company ''C'' (Finite 50)] []]",
      folded chain_state_def]
  have e: "list_all (\<lambda>r. endpoints_registered r (add_relationship_edge True r chain_state))
          (pair_relationships binary64 True (ownership_graph (graph chain_state)) (entities chain_state)
             (''a'', ''c''))"
    using t by blast
  show ?thesis
    using t h1 h2 pr e [unfolded pr] by simp
qed

lemma relationship_type_direct: "relationship_type d \<noteq> ''indirect_owns''"
  by (simp add: relationship_type_def Let_def)

lemma relationships_company:
  "relationships (process_media_company float_str c owner_id st) =
     relationships st @ (if t_link c then [company_relationship float_str c owner_id] else [])"
  by (simp add: process_media_company_steps)

lemma relationships_outlet:
  "relationships (process_media_outlet float_str c owner_id st) =
     relationships st @ (if t_link c then [outlet_relationship float_str c owner_id] else [])"
  by (simp add: process_media_outlet_steps)

lemma relationships_family:
  "relationships (process_family_member t owner_id st) =
     relationships st @ (if family_skipped t owner_id then [] else [family_relationship t owner_id])"
  by (simp add: process_family_member_steps family_registration_def)

lemma relationships_html_file:
  "\<exists>rs. relationships (process_html_file float_str pg st) = relationships st @ rs
        \<and> list_all (\<lambda>r. rel_type r \<noteq> ''indirect_owns'') rs"
proof -
  let ?o = "sanitize_id (pg_owner_name pg)"
  let ?P = "\<lambda>s. \<exists>rs. relationships s = relationships st @ rs
                     \<and> list_all (\<lambda>r. rel_type r \<noteq> ''indirect_owns'') rs"
  let ?st1 = "register_owner
                \<lparr>ow_id = ?o, ow_name = pg_owner_name pg,
                 ow_description = pg_owner_description pg,
                 ow_image_url = pg_owner_image pg, ow_type = ''owner''\<rparr> st"
  let ?st2 = "foldl (\<lambda>s c. process_media_company float_str c ?o s) ?st1 (pg_companies pg)"
  let ?st3 = "foldl (\<lambda>s c. process_media_outlet float_str c ?o s) ?st2 (pg_outlets pg)"
  let ?st4 = "foldl (\<lambda>s t. process_family_member t ?o s) ?st3 (pg_family pg)"
  have 1: "?P ?st1" by simp
  have 2: "?P ?st2"
    by (rule foldl_invariant [where P = ?P, OF 1])
       (auto simp add: relationships_company company_relationship_def)
  have 3: "?P ?st3"
    by (rule foldl_invariant [where P = ?P, OF 2])
       (auto simp add: relationships_outlet outlet_relationship_def)
  have 4: "?P ?st4"
    by (rule foldl_invariant [where P = ?P, OF 3])
       (auto simp add: relationships_family family_relationship_def relationship_type_direct)
  then show ?thesis by (simp add: process_html_file_def Let_def)
qed

lemma relationships_process_files:
  fixes float_str :: "'f \<Rightarrow> string"
  shows "list_all (\<lambda>r. rel_type r \<noteq> ''indirect_owns'')
           (relationships (process_files float_str pages))"
  unfolding process_files_def
proof (rule foldl_invariant
    [where P = "\<lambda>s::'f extractor. list_all (\<lambda>r. rel_type r \<noteq> ''indirect_owns'') (relationships s)"])
  show "list_all (\<lambda>r. rel_type r \<noteq> ''indirect_owns'') (relationships init)"
    by (simp add: init_def)
next
  fix s :: "'f extractor" and pg
  assume "list_all (\<lambda>r. rel_type r \<noteq> ''indirect_owns'') (relationships s)"
  then show "list_all (\<lambda>r. rel_type r \<noteq> ''indirect_owns'')
               (relationships (process_html_file float_str pg s))"
    using relationships_html_file [of float_str pg s] by auto
qed

text \<open>
  C9. The exported relationship list is the list of the direct relationships, as it stands
  when the files have been processed, followed by the relationships the indirect-ownership
  pass emits; so its length is the sum of the two lengths. No direct relationship has the type
  \<open>indirect_owns\<close> and every emitted one has it. Processing one more file only appends to the
  list: the relationships already present keep their positions.
\<close>

theorem relationships_direct_then_indirect:
  "nw_relationships (extract_all_data float_str ops trivial pages) =
     relationships (process_files float_str pages)
       @ indirect_emitted ops trivial (process_files float_str pages)
   \<and> length (nw_relationships (extract_all_data float_str ops trivial pages)) =
       length (relationships (process_files float_str pages))
         + length (indirect_emitted ops trivial (process_files float_str pages))
   \<and> list_all (\<lambda>r. rel_type r \<noteq> ''indirect_owns'') (relationships (process_files float_str pages))
   \<and> list_all (\<lambda>r. rel_type r = ''indirect_owns'')
        (indirect_emitted ops trivial (process_files float_str pages))
   \<and> process_files float_str (pages @ [pg]) =
       process_html_file float_str pg (process_files float_str pages)
   \<and> take (length (relationships st)) (relationships (process_html_file float_str pg st)) =
       relationships st"
proof -
  have a: "nw_relationships (extract_all_data float_str ops trivial pages) =
     relationships (process_files float_str pages)
       @ indirect_emitted ops trivial (process_files float_str pages)"
    by (simp add: extract_all_data_def build_network_def relationships_calculate)
  have b: "list_all (\<lambda>r. rel_type r = ''indirect_owns'')
        (indirect_emitted ops trivial (process_files float_str pages))"
    by (simp add: list_all_iff indirect_emitted_type)
  have c: "take (length (relationships st)) (relationships (process_html_file float_str pg st)) =
       relationships st"
    using relationships_html_file [of float_str pg st] by auto
  have d: "process_files float_str (pages @ [pg]) =
       process_html_file float_str pg (process_files float_str pages)"
    by (simp add: process_files_def)
  show ?thesis
    using a b c d relationships_process_files [of float_str pages] by simp
qed

theorem relationships_direct_then_indirect_witness:
  "nw_relationships (extract_all_data example_float_str binary64 True chain_pages) =
     [\<lparr>source_id = ''a'', target_id = ''b'', rel_type = ''owns'', percentage = Float (Finite 60),
       description = ''Owns 60.0% of B''\<rparr>,
      \<lparr>source_id = ''b'', target_id = ''c'', rel_type = ''owns'', percentage = Float (Finite 50),
       description = ''Owns 50.0% of C''\<rparr>,
      \<lparr>source_id = ''a'', target_id = ''c'', rel_type = ''indirect_owns'', percentage = Float (Finite 30),
       description = ''Indirectly owns 30.00% of C''\<rparr>,
      \<lparr>source_id = ''b'', target_id = ''b'', rel_type = ''indirect_owns'', percentage = Float (Finite 100),
       description = ''Indirectly owns 100.00% of B''\<rparr>]
   \<and> length (relationships (process_files example_float_str chain_pages)) = 2
   \<and> length (indirect_emitted binary64 True (process_files example_float_str chain_pages)) = 2"
proof -
  have d: "relationships (process_files example_float_str chain_pages) =
     [\<lparr>source_id = ''a'', target_id = ''b'', rel_type = ''owns'', percentage = Float (Finite 60),
       description = ''Owns 60.0% of B''\<rparr>,
      \<lparr>source_id = ''b'', target_id = ''c'', rel_type = ''owns'', percentage = Float (Finite 50),
       description = ''Owns 50.0% of C''\<rparr>]"
    by code_simp
  have i: "indirect_emitted binary64 True (process_files example_float_str chain_pages) =
     [\<lparr>source_id = ''a'', target_id = ''c'', rel_type = ''indirect_owns'', percentage = Float (Finite 30),
       description = ''Indirectly owns 30.00% of C''\<rparr>,
      \<lparr>source_id = ''b'', target_id = ''b'', rel_type = ''indirect_owns'', percentage = Float (Finite 100),
       description = ''Indirectly owns 100.00% of B''\<rparr>]"
    by code_simp
  have "nw_relationships (extract_all_data example_float_str binary64 True chain_pages) =
     relationships (process_files example_float_str chain_pages)
       @ indirect_emitted binary64 True (process_files example_float_str chain_pages)"
    using relationships_direct_then_indirect [of example_float_str binary64 True chain_pages] by blast
  then show ?thesis
    unfolding d i by simp
qed

end
